theory Spec2Isabelle
  imports
    Main
    "HOL-Library.Char_ord"
    "HOL-Library.List_Lexorder"
    "HOL-Library.Product_Lexorder"
begin

section \<open>DevTodo: a shallow embedding of devtodo.py\<close>

text \<open>
  The program keeps a list of task dictionaries in the file \<^verbatim>\<open>.todo.json\<close> of the
  working directory. Every command loads the whole list, works on it in memory and, when
  it changed something, writes the whole list back.

  Python strings are sequences of code points. The embedding uses \<^typ>\<open>string\<close> with one
  \<^typ>\<open>char\<close> per code point, which covers the code points below 256; the character
  classes below are Python's \<^verbatim>\<open>str.isspace\<close>, the \<^verbatim>\<open>\w\<close> and \<^verbatim>\<open>\s\<close> of the
  \<^verbatim>\<open>re\<close> module on \<^verbatim>\<open>str\<close> patterns, and \<^verbatim>\<open>str.lower\<close>, each restricted to that range.
\<close>

subsection \<open>Characters and the string methods the program calls\<close>

definition is_space :: "char \<Rightarrow> bool" where
  "is_space c =
     (let n = (of_char c :: nat)
      in (9 \<le> n \<and> n \<le> 13) \<or> (28 \<le> n \<and> n \<le> 32) \<or> n = 133 \<or> n = 160)"

definition is_word :: "char \<Rightarrow> bool" where
  "is_word c =
     (let n = (of_char c :: nat)
      in (48 \<le> n \<and> n \<le> 57) \<or> (65 \<le> n \<and> n \<le> 90) \<or> n = 95 \<or> (97 \<le> n \<and> n \<le> 122) \<or>
         n = 170 \<or> n = 178 \<or> n = 179 \<or> n = 181 \<or> n = 185 \<or> n = 186 \<or>
         (188 \<le> n \<and> n \<le> 190) \<or> (192 \<le> n \<and> n \<le> 214) \<or> (216 \<le> n \<and> n \<le> 246) \<or>
         (248 \<le> n \<and> n \<le> 255))"

definition lower_char :: "char \<Rightarrow> char" where
  "lower_char c =
     (let n = (of_char c :: nat)
      in if (65 \<le> n \<and> n \<le> 90) \<or> (192 \<le> n \<and> n \<le> 214) \<or> (216 \<le> n \<and> n \<le> 222)
         then char_of (n + 32) else c)"

text \<open>\<^verbatim>\<open>s.lower()\<close>\<close>

definition lower :: "string \<Rightarrow> string" where
  "lower s = map lower_char s"

text \<open>\<^verbatim>\<open>s.strip()\<close>: whitespace is removed at both ends.\<close>

definition strip :: "string \<Rightarrow> string" where
  "strip s = rev (dropWhile is_space (rev (dropWhile is_space s)))"

text \<open>\<^verbatim>\<open>s.split()\<close>: the maximal runs of characters that are not whitespace.\<close>

function split_ws :: "string \<Rightarrow> string list" where
  "split_ws [] = []"
| "split_ws (c # cs) =
     (if is_space c then split_ws cs
      else (c # takeWhile (\<lambda>x. \<not> is_space x) cs) # split_ws (dropWhile (\<lambda>x. \<not> is_space x) cs))"
  by pat_completeness auto
termination
  by (relation "measure length") (auto simp: length_dropWhile_le less_Suc_eq_le)

text \<open>\<^verbatim>\<open>sep.join(xs)\<close>\<close>

fun join :: "string \<Rightarrow> string list \<Rightarrow> string" where
  "join sep [] = []"
| "join sep [x] = x"
| "join sep (x # y # ys) = x @ sep @ join sep (y # ys)"

subsection \<open>The three regular-expression calls\<close>

text \<open>
  The patterns are \<^verbatim>\<open>#(\w+)\<close>, \<^verbatim>\<open>#\w+\s*\<close>, \<^verbatim>\<open>@(\w+)\<close> and \<^verbatim>\<open>@\w+\s*\<close>: a sigil, then a
  greedy run of word characters that must not be empty, then (in the substitutions) a
  greedy run of whitespace. The sigil is given as a parameter. The scanners go from left
  to right and continue behind a match, as \<^verbatim>\<open>re\<close> does.
\<close>

text \<open>\<^verbatim>\<open>re.findall(sigil + r'(\w+)', s)\<close>: group 1 of every match, in order.\<close>

function findall_token :: "char \<Rightarrow> string \<Rightarrow> string list" where
  "findall_token sg [] = []"
| "findall_token sg (c # cs) =
     (if c = sg \<and> takeWhile is_word cs \<noteq> []
      then takeWhile is_word cs # findall_token sg (dropWhile is_word cs)
      else findall_token sg cs)"
  by pat_completeness auto
termination
  by (relation "measure (\<lambda>(sg, cs). length cs)") (auto simp: length_dropWhile_le less_Suc_eq_le)

text \<open>\<^verbatim>\<open>re.sub(sigil + r'\w+\s*', '', s)\<close>: every match is deleted.\<close>

function sub_token :: "char \<Rightarrow> string \<Rightarrow> string" where
  "sub_token sg [] = []"
| "sub_token sg (c # cs) =
     (if c = sg \<and> takeWhile is_word cs \<noteq> []
      then sub_token sg (dropWhile is_space (dropWhile is_word cs))
      else c # sub_token sg cs)"
  by pat_completeness auto
termination
proof (relation "measure (\<lambda>(sg, cs). length cs)")
  fix sg :: char and c :: char and cs :: string
  have "length (dropWhile is_space (dropWhile is_word cs)) \<le> length cs"
    by (rule order_trans [OF length_dropWhile_le length_dropWhile_le])
  then show "((sg, dropWhile is_space (dropWhile is_word cs)), (sg, c # cs))
      \<in> measure (\<lambda>(sg, cs). length cs)"
    by simp
qed auto

text \<open>\<^verbatim>\<open>re.search(sigil + r'(\w+)', s)\<close>: group 1 of the first match, if there is one.\<close>

fun search_token :: "char \<Rightarrow> string \<Rightarrow> string option" where
  "search_token sg [] = None"
| "search_token sg (c # cs) =
     (if c = sg \<and> takeWhile is_word cs \<noteq> [] then Some (takeWhile is_word cs)
      else search_token sg cs)"

subsection \<open>Priority tables\<close>

text \<open>The dictionary \<^verbatim>\<open>PRIORITIES\<close>, in the order of its keys, and its inverse.\<close>

definition PRIORITIES :: "(string \<times> int) list" where
  "PRIORITIES = [(''low'', 1), (''normal'', 2), (''high'', 3), (''urgent'', 4)]"

definition PRIORITY_NAMES :: "(int \<times> string) list" where
  "PRIORITY_NAMES = map (\<lambda>(k, v). (v, k)) PRIORITIES"

text \<open>The keys of \<^verbatim>\<open>PRIORITY_ICONS\<close>; the icons themselves are not modelled.\<close>

definition PRIORITY_ICONS :: "int list" where
  "PRIORITY_ICONS = [1, 2, 3, 4]"

subsection \<open>Tasks, messages and the world\<close>

text \<open>
  A task is a dictionary. The keys \<^verbatim>\<open>desc\<close> and \<^verbatim>\<open>done\<close> (the field \<open>is_done\<close>) are
  read by subscript and are always there; \<^verbatim>\<open>priority\<close>, \<^verbatim>\<open>tags\<close> and \<^verbatim>\<open>created\<close> are
  read with \<^verbatim>\<open>get\<close> and may be missing in a file written by an older version: \<open>None\<close>
  is the missing key. Two dictionaries are equal when they have the same keys and values,
  which is equality of the record.
\<close>

record task =
  desc :: string
  is_done :: bool
  priority :: "int option"
  tags :: "string list option"
  created :: "string option"

datatype py_error = KeyError | ValueError | TypeError

text \<open>One entry of the list \<^verbatim>\<open>changes\<close> of \<^verbatim>\<open>update_task\<close>.\<close>

datatype change =
    Description_change string string
  | Priority_change string string
  | Tags_change "string list" "string list"

text \<open>
  What the program prints: one constructor for each message of the source (a run of
  lines of fixed text is one message), with the values the printed line is built from,
  grouped by the part of the program that prints.
\<close>

datatype storage_msg = Error_reading_todo_file | Error_saving_tasks

datatype parser_msg = Unknown_priority string | Empty_description string

text \<open>
  What \<^verbatim>\<open>format_task\<close> puts into a line: the index, the status, the priority whose icon
  is shown, the description, the tags, and the creation time when it is shown.
\<close>

datatype formatted = Formatted nat bool int string "string list" "string option"

text \<open>A \<open>Task_line\<close> is indented (\<open>True\<close>) when it stands under a priority header.\<close>

datatype list_msg =
    No_pending_tasks
  | No_tasks_match "string list"
  | Try_hint
  | All_tasks_header nat nat nat
  | Pending_tasks_header nat nat
  | Blank_line
  | Group_header int string
  | Task_line bool formatted

datatype task_msg =
    Added string string "string list"
  | Invalid_task_number nat
  | Already_completed int
  | Completed int string
  | Already_pending int
  | Reopened int string
  | Removed bool string
  | No_changes int
  | Updated int "change list"

datatype clear_msg =
    No_completed_tasks
  | Cleared nat
  | Removed_header
  | Removed_item string "string list"

datatype stats_msg =
    No_tasks_to_analyze
  | Stats_totals nat nat nat
  | Stats_banner nat
  | All_completed
  | Attention_header
  | Priority_count string nat
  | Categories_header
  | Tag_count string nat
  | Stats_footer

datatype screen_msg =
    Welcome_header
  | Your_tasks
  | Tip_done
  | Ready_to_get_organized
  | Getting_started
  | Help_text
  | Unexpected_error py_error

datatype msg =
    Storage_msg storage_msg
  | Parser_msg parser_msg
  | List_msg list_msg
  | Task_msg task_msg
  | Clear_msg clear_msg
  | Stats_msg stats_msg
  | Screen_msg screen_msg

text \<open>
  The file \<^verbatim>\<open>.todo.json\<close>: it does not exist, or \<^verbatim>\<open>json.load\<close> raises
  \<^verbatim>\<open>JSONDecodeError\<close> on it, or it holds an array of task objects.
\<close>

datatype todo_file = Absent | Undecodable | Tasks "task list"

text \<open>
  The world a command runs in: the file, whether the file can be opened for writing, the
  two renderings of \<^verbatim>\<open>datetime.now()\<close> the program uses, what has been printed, and
  the number of times \<^verbatim>\<open>save_tasks\<close> has been called.
\<close>

record world =
  disk :: todo_file
  writable :: bool
  now_iso :: string
  now_stamp :: string
  printed :: "msg list"
  saves :: nat

definition print :: "msg \<Rightarrow> world \<Rightarrow> world" where
  "print m w = w\<lparr>printed := printed w @ [m]\<rparr>"

text \<open>The tasks the file holds; none when there is no readable array.\<close>

definition stored :: "world \<Rightarrow> task list" where
  "stored w = (case disk w of Tasks ts \<Rightarrow> ts | _ \<Rightarrow> [])"

subsection \<open>Storage\<close>

text \<open>
  The body of the migration loop of \<^verbatim>\<open>load_tasks\<close>. The source reads the clock anew for
  each record that lacks \<^verbatim>\<open>created\<close>; the model gives all of them the one time
  \<open>now_iso\<close> of the world, so two such records that are otherwise equal stay equal here
  and can differ in the microseconds there.
\<close>

definition migrate :: "string \<Rightarrow> task \<Rightarrow> task" where
  "migrate now t =
     (let t = (if priority t = None then t\<lparr>priority := Some 2\<rparr> else t);
          t = (if tags t = None then t\<lparr>tags := Some []\<rparr> else t);
          t = (if created t = None then t\<lparr>created := Some now\<rparr> else t)
      in t)"

definition load_tasks :: "world \<Rightarrow> task list \<times> world" where
  "load_tasks w =
     (case disk w of
        Absent \<Rightarrow> ([], w)
      | Undecodable \<Rightarrow> ([], print (Storage_msg Error_reading_todo_file) w)
      | Tasks ts \<Rightarrow> (map (migrate (now_iso w)) ts, w))"

definition save_tasks :: "task list \<Rightarrow> world \<Rightarrow> world" where
  "save_tasks ts w =
     (let w = w\<lparr>saves := saves w + 1\<rparr>
      in if writable w then w\<lparr>disk := Tasks ts\<rparr> else print (Storage_msg Error_saving_tasks) w)"

subsection \<open>The text parser\<close>

text \<open>
  \<^verbatim>\<open>parse_tags_and_priority\<close> returns the cleaned description (\<open>None\<close> when nothing is
  left of it), the tags and the priority; the model returns what it printed as well.
\<close>

definition parse_tags_and_priority ::
  "string \<Rightarrow> msg list \<times> string option \<times> string list \<times> int" where
  "parse_tags_and_priority original_desc =
     (let found_tags = findall_token CHR ''#'' original_desc;
          d = strip (sub_token CHR ''#'' original_desc);
          priority_match = search_token CHR ''@'' d;
          (out, prio, d) =
            (case priority_match of
               None \<Rightarrow> ([], 2, d)
             | Some g \<Rightarrow>
                 (let priority_str = lower g;
                      (out, prio) =
                        (case map_of PRIORITIES priority_str of
                           Some p \<Rightarrow> ([], p)
                         | None \<Rightarrow> ([Parser_msg (Unknown_priority priority_str)], 2))
                  in (out, prio, strip (sub_token CHR ''@'' d))));
          d = join '' '' (split_ws d)
      in if d = [] then (out @ [Parser_msg (Empty_description original_desc)], None, [], prio)
         else (out, Some d, found_tags, prio))"

subsection \<open>Helpers for Python's idioms\<close>

text \<open>
  \<^verbatim>\<open>x if x else y\<close> and \<^verbatim>\<open>if x:\<close> test truth: \<^verbatim>\<open>None\<close>, the empty string and the
  empty list are false.
\<close>

definition truthy :: "'a list option \<Rightarrow> bool" where
  "truthy x = (case x of None \<Rightarrow> False | Some v \<Rightarrow> v \<noteq> [])"

text \<open>\<^verbatim>\<open>task.get('priority', 2)\<close>, \<^verbatim>\<open>task.get('tags', [])\<close>, \<^verbatim>\<open>task.get('created', '')\<close>\<close>

definition get_priority :: "task \<Rightarrow> int" where
  "get_priority t = (case priority t of None \<Rightarrow> 2 | Some p \<Rightarrow> p)"

definition get_tags :: "task \<Rightarrow> string list" where
  "get_tags t = (case tags t of None \<Rightarrow> [] | Some ts \<Rightarrow> ts)"

definition get_created :: "task \<Rightarrow> string" where
  "get_created t = (case created t of None \<Rightarrow> [] | Some c \<Rightarrow> c)"

text \<open>\<^verbatim>\<open>1 <= index <= len(tasks)\<close>\<close>

definition valid_index :: "int \<Rightarrow> 'a list \<Rightarrow> bool" where
  "valid_index index xs = (1 \<le> index \<and> index \<le> int (length xs))"

subsection \<open>Adding a task\<close>

definition add_task ::
  "string \<Rightarrow> string option \<Rightarrow> string list option \<Rightarrow> world \<Rightarrow> (py_error + bool) \<times> world" where
  "add_task desc0 priority0 tags0 w =
     (case parse_tags_and_priority desc0 of (out, parsed_desc, inline_tags, inline_priority) \<Rightarrow>
        (let w = w\<lparr>printed := printed w @ out\<rparr>
         in case parsed_desc of
              None \<Rightarrow> (Inr False, w)
            | Some cleaned \<Rightarrow>
                (let final_priority =
                       (case (if truthy priority0 then map_of PRIORITIES (lower (the priority0))
                              else None) of
                          Some p \<Rightarrow> p
                        | None \<Rightarrow> inline_priority);
                     final_tags = (if truthy tags0 then the tags0 else inline_tags);
                     (tasks, w) = load_tasks w;
                     new_task = \<lparr>desc = cleaned, is_done = False, priority = Some final_priority,
                                tags = Some final_tags, created = Some (now_stamp w)\<rparr>;
                     tasks = tasks @ [new_task];
                     w = save_tasks tasks w
                 in case map_of PRIORITY_NAMES final_priority of
                      None \<Rightarrow> (Inl KeyError, w)
                    | Some priority_name \<Rightarrow>
                        (Inr True, print (Task_msg (Added priority_name cleaned final_tags)) w))))"

subsection \<open>Completing, reopening and deleting\<close>

definition mark_done :: "int \<Rightarrow> world \<Rightarrow> (py_error + bool) \<times> world" where
  "mark_done index w =
     (let (tasks, w) = load_tasks w
      in if \<not> valid_index index tasks
         then (Inr False, print (Task_msg (Invalid_task_number (length tasks))) w)
         else (let i = nat (index - 1); t = tasks ! i
               in if is_done t then (Inr True, print (Task_msg (Already_completed index)) w)
                  else (let tasks = tasks[i := t\<lparr>is_done := True\<rparr>];
                            w = save_tasks tasks w
                        in (Inr True, print (Task_msg (Completed index (desc (tasks ! i)))) w))))"

definition mark_undone :: "int \<Rightarrow> world \<Rightarrow> (py_error + bool) \<times> world" where
  "mark_undone index w =
     (let (tasks, w) = load_tasks w
      in if \<not> valid_index index tasks
         then (Inr False, print (Task_msg (Invalid_task_number (length tasks))) w)
         else (let i = nat (index - 1); t = tasks ! i
               in if \<not> is_done t then (Inr True, print (Task_msg (Already_pending index)) w)
                  else (let tasks = tasks[i := t\<lparr>is_done := False\<rparr>];
                            w = save_tasks tasks w
                        in (Inr True, print (Task_msg (Reopened index (desc (tasks ! i)))) w))))"

definition delete_task :: "int \<Rightarrow> world \<Rightarrow> (py_error + bool) \<times> world" where
  "delete_task index w =
     (let (tasks, w) = load_tasks w
      in if \<not> valid_index index tasks
         then (Inr False, print (Task_msg (Invalid_task_number (length tasks))) w)
         else (let i = nat (index - 1);
                   removed = tasks ! i;
                   tasks = take i tasks @ drop (Suc i) tasks;
                   w = save_tasks tasks w
               in (Inr True, print (Task_msg (Removed (is_done removed) (desc removed))) w)))"

subsection \<open>Updating a task\<close>

text \<open>\<^verbatim>\<open>PRIORITY_NAMES.get(task.get('priority', 2), 'normal')\<close>\<close>

definition priority_name_or_normal :: "task \<Rightarrow> string" where
  "priority_name_or_normal t =
     (case map_of PRIORITY_NAMES (get_priority t) of None \<Rightarrow> ''normal'' | Some n \<Rightarrow> n)"

text \<open>
  The block under \<^verbatim>\<open>if desc:\<close> once the parser has returned a description: it sets the
  description, and the inline priority and tags where no explicit ones were given.
\<close>

definition apply_parsed ::
  "string \<Rightarrow> string list \<Rightarrow> int \<Rightarrow> string option \<Rightarrow> string list option \<Rightarrow> task
     \<Rightarrow> py_error + task \<times> change list" where
  "apply_parsed new_desc inline_tags inline_priority priority0 tags0 t =
     (let changes = [Description_change (desc t) new_desc];
          t = t\<lparr>desc := new_desc\<rparr>
      in case (if \<not> truthy priority0 \<and> inline_priority \<noteq> get_priority t
               then (case map_of PRIORITY_NAMES inline_priority of
                       None \<Rightarrow> Inl KeyError
                     | Some new_priority \<Rightarrow>
                         Inr (t\<lparr>priority := Some inline_priority\<rparr>,
                              changes @ [Priority_change (priority_name_or_normal t) new_priority]))
               else Inr (t, changes)) of
           Inl e \<Rightarrow> Inl e
         | Inr (t, changes) \<Rightarrow>
             if tags0 = None \<and> inline_tags \<noteq> get_tags t
             then Inr (t\<lparr>tags := Some inline_tags\<rparr>,
                       changes @ [Tags_change (get_tags t) inline_tags])
             else Inr (t, changes))"

text \<open>The blocks under \<^verbatim>\<open>if priority:\<close> and \<^verbatim>\<open>if tags is not None:\<close>.\<close>

definition apply_explicit ::
  "string option \<Rightarrow> string list option \<Rightarrow> task \<times> change list \<Rightarrow> task \<times> change list" where
  "apply_explicit priority0 tags0 tc =
     (let (t, changes) = tc;
          (t, changes) =
            (if truthy priority0
             then (case map_of PRIORITIES (lower (the priority0)) of
                     None \<Rightarrow> (t, changes)
                   | Some priority_level \<Rightarrow>
                       if priority_level \<noteq> 0 \<and> priority_level \<noteq> get_priority t
                       then (t\<lparr>priority := Some priority_level\<rparr>,
                             changes @ [Priority_change (priority_name_or_normal t) (the priority0)])
                       else (t, changes))
             else (t, changes))
      in case tags0 of
           None \<Rightarrow> (t, changes)
         | Some new_tags \<Rightarrow>
             if new_tags \<noteq> get_tags t
             then (t\<lparr>tags := Some new_tags\<rparr>, changes @ [Tags_change (get_tags t) new_tags])
             else (t, changes))"

text \<open>The end of \<^verbatim>\<open>update_task\<close>: nothing is saved when the list of changes is empty.\<close>

definition finish_update ::
  "int \<Rightarrow> task list \<Rightarrow> task \<times> change list \<Rightarrow> world \<Rightarrow> (py_error + bool) \<times> world" where
  "finish_update index tasks tc w =
     (let (t, changes) = tc
      in if changes = [] then (Inr True, print (Task_msg (No_changes index)) w)
         else (let w = save_tasks (tasks[nat (index - 1) := t]) w
               in (Inr True, print (Task_msg (Updated index changes)) w)))"

definition update_task ::
  "int \<Rightarrow> string option \<Rightarrow> string option \<Rightarrow> string list option \<Rightarrow> world
     \<Rightarrow> (py_error + bool) \<times> world" where
  "update_task index desc0 priority0 tags0 w =
     (let (tasks, w) = load_tasks w
      in if \<not> valid_index index tasks
         then (Inr False, print (Task_msg (Invalid_task_number (length tasks))) w)
         else (let t = tasks ! nat (index - 1)
               in if truthy desc0
                  then (case parse_tags_and_priority (the desc0) of
                          (out, parsed_desc, inline_tags, inline_priority) \<Rightarrow>
                            (let w = w\<lparr>printed := printed w @ out\<rparr>
                             in case parsed_desc of
                                  None \<Rightarrow> (Inr False, w)
                                | Some new_desc \<Rightarrow>
                                    (case apply_parsed new_desc inline_tags inline_priority
                                            priority0 tags0 t of
                                       Inl e \<Rightarrow> (Inl e, w)
                                     | Inr tc \<Rightarrow>
                                         finish_update index tasks
                                           (apply_explicit priority0 tags0 tc) w)))
                  else finish_update index tasks (apply_explicit priority0 tags0 (t, [])) w))"

subsection \<open>Clearing completed tasks\<close>

definition clear_done :: "world \<Rightarrow> (py_error + unit) \<times> world" where
  "clear_done w =
     (let (tasks, w) = load_tasks w;
          done_tasks = filter is_done tasks;
          new_tasks = filter (\<lambda>t. \<not> is_done t) tasks
      in if done_tasks = [] then (Inr (), print (Clear_msg No_completed_tasks) w)
         else (let w = save_tasks new_tasks w;
                   w = print (Clear_msg (Cleared (length done_tasks))) w
               in if length done_tasks \<le> 5
                  then (Inr (),
                        foldl (\<lambda>w t. print (Clear_msg (Removed_item (desc t) (get_tags t))) w)
                          (print (Clear_msg Removed_header) w) done_tasks)
                  else (Inr (), w)))"

subsection \<open>Listing\<close>

text \<open>
  \<^verbatim>\<open>format_task\<close>. The last component is the stored creation text when the dates are
  to be shown and the text is not empty: the source turns it into "today", "yesterday",
  a number of days or a date with \<^verbatim>\<open>datetime.fromisoformat\<close>, and shows nothing when the
  text is not an ISO date. The model keeps the text the line is computed from and does
  not compute the rendering.
\<close>

definition format_task :: "task \<Rightarrow> nat \<Rightarrow> bool \<Rightarrow> formatted" where
  "format_task t index show_created =
     Formatted index (is_done t)
       (if get_priority t \<in> set PRIORITY_ICONS then get_priority t else 2)
       (desc t) (get_tags t)
       (if show_created \<and> truthy (created t) then created t else None)"

text \<open>\<^verbatim>\<open>xs.index(x)\<close>: the first position of an element equal to \<open>x\<close>, or \<^verbatim>\<open>ValueError\<close>.\<close>

fun index_of :: "'a \<Rightarrow> 'a list \<Rightarrow> nat option" where
  "index_of x [] = None"
| "index_of x (y # ys) = (if x = y then Some 0 else map_option Suc (index_of x ys))"

text \<open>
  \<^verbatim>\<open>list_tasks\<close> holds two variables, \<^verbatim>\<open>tasks\<close> and \<^verbatim>\<open>filtered_tasks\<close>, that name the
  same list object until a filter builds a new list, and it sorts \<^verbatim>\<open>filtered_tasks\<close>
  in place. The lists therefore live in a heap and the variables hold addresses.
\<close>

type_synonym heap = "task list list"

definition alloc :: "task list \<Rightarrow> heap \<Rightarrow> heap \<times> nat" where
  "alloc xs h = (h @ [xs], length h)"

definition matches_tags :: "string list \<Rightarrow> task \<Rightarrow> bool" where
  "matches_tags filter_tags t =
     list_ex (\<lambda>tg. lower tg \<in> set (map lower (get_tags t))) filter_tags"

text \<open>The three filters: each one that applies binds \<^verbatim>\<open>filtered_tasks\<close> to a new list.\<close>

definition apply_filters ::
  "string list option \<Rightarrow> string option \<Rightarrow> bool \<Rightarrow> heap \<times> nat \<Rightarrow> heap \<times> nat" where
  "apply_filters filter_tags filter_priority show_done hf =
     (let (h, filtered_tasks) = hf;
          (h, filtered_tasks) =
            (if \<not> show_done then alloc (filter (\<lambda>t. \<not> is_done t) (h ! filtered_tasks)) h
             else (h, filtered_tasks));
          (h, filtered_tasks) =
            (if truthy filter_tags
             then alloc (filter (matches_tags (the filter_tags)) (h ! filtered_tasks)) h
             else (h, filtered_tasks))
      in if truthy filter_priority
         then (case map_of PRIORITIES (lower (the filter_priority)) of
                 None \<Rightarrow> (h, filtered_tasks)
               | Some priority_level \<Rightarrow>
                   if priority_level \<noteq> 0
                   then alloc (filter (\<lambda>t. get_priority t = priority_level) (h ! filtered_tasks)) h
                   else (h, filtered_tasks))
         else (h, filtered_tasks))"

text \<open>
  The two calls of \<^verbatim>\<open>list.sort\<close>, which is stable; with \<^verbatim>\<open>reverse=True\<close> equal keys
  keep their order as well.
\<close>

definition apply_sort :: "string \<Rightarrow> nat \<Rightarrow> heap \<Rightarrow> heap" where
  "apply_sort sort_by filtered_tasks h =
     (if sort_by = ''priority''
      then h[filtered_tasks := sort_key (\<lambda>x. (- get_priority x, get_created x)) (h ! filtered_tasks)]
      else if sort_by = ''created''
      then h[filtered_tasks := rev (sort_key get_created (rev (h ! filtered_tasks)))]
      else h)"

definition filter_desc :: "string list option \<Rightarrow> string option \<Rightarrow> bool \<Rightarrow> string list" where
  "filter_desc filter_tags filter_priority show_done =
     (if truthy filter_tags then [''tags: #'' @ join '' #'' (the filter_tags)] else []) @
     (if truthy filter_priority then [''priority: '' @ the filter_priority] else []) @
     (if \<not> show_done then [''status: pending''] else [])"

text \<open>The loop that prints the tasks under priority headers.\<close>

fun render_grouped ::
  "task list \<Rightarrow> bool \<Rightarrow> int option \<Rightarrow> task list \<Rightarrow> world \<Rightarrow> (py_error + unit) \<times> world" where
  "render_grouped tasks show_created current_priority [] w = (Inr (), w)"
| "render_grouped tasks show_created current_priority (t # ts) w =
     (let task_priority = get_priority t
      in case (if Some task_priority \<noteq> current_priority
               then (case map_of PRIORITY_NAMES task_priority of
                       None \<Rightarrow> Inl KeyError
                     | Some priority_name \<Rightarrow>
                         Inr (print (List_msg (Group_header task_priority priority_name))
                                (if current_priority \<noteq> None then print (List_msg Blank_line) w
                                 else w),
                              Some task_priority))
               else Inr (w, current_priority)) of
           Inl e \<Rightarrow> (Inl e, w)
         | Inr (w, current_priority) \<Rightarrow>
             (case index_of t tasks of
                None \<Rightarrow> (Inl ValueError, w)
              | Some i \<Rightarrow>
                  render_grouped tasks show_created current_priority ts
                    (print (List_msg (Task_line True (format_task t (i + 1) show_created))) w)))"

text \<open>The loop that prints the flat list.\<close>

fun render_flat :: "task list \<Rightarrow> bool \<Rightarrow> task list \<Rightarrow> world \<Rightarrow> (py_error + unit) \<times> world" where
  "render_flat tasks show_created [] w = (Inr (), w)"
| "render_flat tasks show_created (t # ts) w =
     (case index_of t tasks of
        None \<Rightarrow> (Inl ValueError, w)
      | Some i \<Rightarrow>
          render_flat tasks show_created ts
            (print (List_msg (Task_line False (format_task t (i + 1) show_created))) w))"

definition list_tasks ::
  "string list option \<Rightarrow> string option \<Rightarrow> string \<Rightarrow> bool \<Rightarrow> bool \<Rightarrow> world
     \<Rightarrow> (py_error + unit) \<times> world" where
  "list_tasks filter_tags filter_priority sort_by show_done show_created w =
     (let (loaded, w) = load_tasks w
      in if loaded = [] then (Inr (), print (List_msg No_pending_tasks) w)
         else (let tasks = 0;
                   (h, filtered_tasks) =
                     apply_filters filter_tags filter_priority show_done ([loaded], tasks);
                   h = apply_sort sort_by filtered_tasks h
               in if h ! filtered_tasks = []
                  then (Inr (),
                        print (List_msg Try_hint)
                          (print (List_msg (No_tasks_match
                                     (filter_desc filter_tags filter_priority show_done))) w))
                  else (let total_tasks = length (h ! tasks);
                            pending_tasks = length (filter (\<lambda>t. \<not> is_done t) (h ! tasks));
                            done_tasks = total_tasks - pending_tasks;
                            w = (if show_done
                                 then print (List_msg (All_tasks_header total_tasks pending_tasks
                                                done_tasks)) w
                                 else print (List_msg (Pending_tasks_header pending_tasks
                                                total_tasks)) w)
                        in if sort_by = ''priority'' \<and> \<not> truthy filter_priority
                           then render_grouped (h ! tasks) show_created None (h ! filtered_tasks) w
                           else render_flat (h ! tasks) show_created (h ! filtered_tasks) w)))"

subsection \<open>Statistics\<close>

text \<open>
  The banner is chosen by comparing \<^verbatim>\<open>done / total * 100\<close> with 80, 60, 40 and 20. The
  source computes the rate in binary floating point; the model compares the exact
  fractions and returns the number of the banner, 0 for the best one.
\<close>

definition banner :: "nat \<Rightarrow> nat \<Rightarrow> nat" where
  "banner done_count total_count =
     (if 100 * done_count \<ge> 80 * total_count then 0
      else if 100 * done_count \<ge> 60 * total_count then 1
      else if 100 * done_count \<ge> 40 * total_count then 2
      else if 100 * done_count \<ge> 20 * total_count then 3
      else 4)"

text \<open>\<^verbatim>\<open>d[k] = d.get(k, 0) + 1\<close> on a dictionary, which keeps the order of insertion.\<close>

fun bump :: "string \<Rightarrow> (string \<times> nat) list \<Rightarrow> (string \<times> nat) list" where
  "bump k [] = [(k, 1)]"
| "bump k ((k', n) # kvs) = (if k = k' then (k', n + 1) # kvs else (k', n) # bump k kvs)"

text \<open>The loop that counts the pending tasks of each priority.\<close>

fun count_priorities ::
  "task list \<Rightarrow> (string \<times> nat) list \<Rightarrow> py_error + (string \<times> nat) list" where
  "count_priorities [] priority_counts = Inr priority_counts"
| "count_priorities (t # ts) priority_counts =
     (if \<not> is_done t
      then (case map_of PRIORITY_NAMES (get_priority t) of
              None \<Rightarrow> Inl KeyError
            | Some priority_name \<Rightarrow> count_priorities ts (bump priority_name priority_counts))
      else count_priorities ts priority_counts)"

text \<open>The loop that counts the tags of the pending tasks.\<close>

fun count_tags :: "task list \<Rightarrow> (string \<times> nat) list \<Rightarrow> (string \<times> nat) list" where
  "count_tags [] tag_counts = tag_counts"
| "count_tags (t # ts) tag_counts =
     (if \<not> is_done t then count_tags ts (foldl (\<lambda>d tg. bump tg d) tag_counts (get_tags t))
      else count_tags ts tag_counts)"

definition print_priority_counts :: "(string \<times> nat) list \<Rightarrow> world \<Rightarrow> world" where
  "print_priority_counts priority_counts w =
     (if priority_counts = [] then w
      else foldl (\<lambda>w priority_name.
                    case map_of priority_counts priority_name of
                      None \<Rightarrow> w
                    | Some n \<Rightarrow> print (Stats_msg (Priority_count priority_name n)) w)
             (print (Stats_msg Attention_header) w) [''urgent'', ''high'', ''normal'', ''low''])"

definition print_tag_counts :: "(string \<times> nat) list \<Rightarrow> world \<Rightarrow> world" where
  "print_tag_counts tag_counts w =
     (if tag_counts = [] then w
      else foldl (\<lambda>w (tg, n). print (Stats_msg (Tag_count tg n)) w)
             (print (Stats_msg Categories_header) w)
             (take 5 (sort_key (\<lambda>(tg, n). - int n) tag_counts)))"

definition show_stats :: "world \<Rightarrow> (py_error + unit) \<times> world" where
  "show_stats w =
     (let (tasks, w) = load_tasks w
      in if tasks = [] then (Inr (), print (Stats_msg No_tasks_to_analyze) w)
         else (let total_count = length tasks;
                   done_count = length (filter is_done tasks);
                   pending = total_count - done_count;
                   w = print (Stats_msg (Stats_totals total_count done_count pending)) w;
                   w = print (Stats_msg (Stats_banner (banner done_count total_count))) w
               in if pending = 0 \<and> total_count > 0 then (Inr (), print (Stats_msg All_completed) w)
                  else (case (if pending > 0
                              then map_sum id (\<lambda>pc. print_priority_counts pc w)
                                     (count_priorities tasks [])
                              else Inr w) of
                          Inl e \<Rightarrow> (Inl e, w)
                        | Inr w \<Rightarrow>
                            (Inr (),
                             print (Stats_msg Stats_footer)
                               (print_tag_counts (count_tags tasks []) w)))))"

subsection \<open>The screens and the dispatch\<close>

definition show_welcome_interface :: "world \<Rightarrow> (py_error + unit) \<times> world" where
  "show_welcome_interface w =
     (let w = print (Screen_msg Welcome_header) w;
          (tasks, w) = load_tasks w
      in if tasks \<noteq> []
         then (case list_tasks None None ''priority'' False False (print (Screen_msg Your_tasks) w) of
                 (Inl e, w) \<Rightarrow> (Inl e, w)
               | (Inr u, w) \<Rightarrow>
                   (Inr (), print (Screen_msg Getting_started) (print (Screen_msg Tip_done) w)))
         else (Inr (),
               print (Screen_msg Getting_started) (print (Screen_msg Ready_to_get_organized) w)))"

definition show_help :: "world \<Rightarrow> (py_error + unit) \<times> world" where
  "show_help w = (Inr (), print (Screen_msg Help_text) w)"

text \<open>
  What \<^verbatim>\<open>argparse\<close> hands to \<^verbatim>\<open>main\<close>: no arguments at all, or one of the commands with
  its options.
\<close>

datatype command =
    No_arguments
  | Add "string list" "string option" "string list option"
  | Ls "string list option" "string option" string bool bool
  | Update int "string option" "string option" "string list option"
  | Done int
  | Undone int
  | Rm int
  | Clear
  | Stats
  | Help

definition forget :: "(py_error + 'a) \<times> world \<Rightarrow> (py_error + unit) \<times> world" where
  "forget r = (map_sum id (\<lambda>x. ()) (fst r), snd r)"

text \<open>The dispatch of \<^verbatim>\<open>main\<close>, before its exception handler.\<close>

fun run :: "command \<Rightarrow> world \<Rightarrow> (py_error + unit) \<times> world" where
  "run No_arguments w = show_welcome_interface w"
| "run (Add words p tg) w = forget (add_task (join '' '' words) p tg w)"
| "run (Ls tg p sort_by show_done show_created) w = list_tasks tg p sort_by show_done show_created w"
| "run (Update index d p tg) w = forget (update_task index d p tg w)"
| "run (Done index) w = forget (mark_done index w)"
| "run (Undone index) w = forget (mark_undone index w)"
| "run (Rm index) w = forget (delete_task index w)"
| "run Clear w = clear_done w"
| "run Stats w = show_stats w"
| "run Help w = show_help w"

text \<open>
  \<^verbatim>\<open>main\<close> returns the exit status with the world. The welcome screen is shown before
  the \<^verbatim>\<open>try\<close> block: an exception there is not caught, and the interpreter ends with
  status 1 (what it writes about the exception is not modelled). An exception of a command
  is caught, reported and answered with \<^verbatim>\<open>sys.exit(1)\<close>.
\<close>

definition main :: "command \<Rightarrow> world \<Rightarrow> int \<times> world" where
  "main c w =
     (case run c w of
        (Inl e, w) \<Rightarrow>
          (1, if c = No_arguments then w else print (Screen_msg (Unexpected_error e)) w)
      | (Inr u, w) \<Rightarrow> (0, w))"

subsection \<open>Loading, on any JSON value\<close>

text \<open>
  \<^verbatim>\<open>load_tasks\<close> does not check what \<^verbatim>\<open>json.load\<close> returns. This second embedding of it
  works on any JSON value and follows what Python does with each kind of value in
  \<^verbatim>\<open>for task in tasks\<close>, \<^verbatim>\<open>key not in task\<close> and \<^verbatim>\<open>task[key] = value\<close>. Numbers are
  integers here; a float behaves as an integer does in these three places. An object is
  the list of its items, in order.
\<close>

datatype json =
    JNull
  | JBool bool
  | JNumber int
  | JString string
  | JArray "json list"
  | JObject "(string \<times> json) list"

datatype file_content = No_file | Invalid_json | Json json

text \<open>\<^verbatim>\<open>for task in tasks\<close>: the values the loop visits.\<close>

fun iterate :: "json \<Rightarrow> py_error + json list" where
  "iterate (JArray xs) = Inr xs"
| "iterate (JObject kvs) = Inr (map (\<lambda>kv. JString (fst kv)) kvs)"
| "iterate (JString s) = Inr (map (\<lambda>c. JString [c]) s)"
| "iterate j = Inl TypeError"

text \<open>\<^verbatim>\<open>k in s\<close> on strings: \<open>k\<close> occurs in \<open>s\<close>.\<close>

definition occurs_in :: "string \<Rightarrow> string \<Rightarrow> bool" where
  "occurs_in k s = list_ex (\<lambda>i. take (length k) (drop i s) = k) [0..<Suc (length s)]"

text \<open>\<^verbatim>\<open>key in task\<close>\<close>

fun contains :: "string \<Rightarrow> json \<Rightarrow> py_error + bool" where
  "contains k (JObject kvs) = Inr (k \<in> set (map fst kvs))"
| "contains k (JArray xs) = Inr (JString k \<in> set xs)"
| "contains k (JString s) = Inr (occurs_in k s)"
| "contains k j = Inl TypeError"

text \<open>\<^verbatim>\<open>task[key] = value\<close>, for a key that is a string.\<close>

fun set_item :: "string \<Rightarrow> json \<Rightarrow> json \<Rightarrow> py_error + json" where
  "set_item k v (JObject kvs) =
     Inr (JObject (if k \<in> set (map fst kvs) then map (\<lambda>kv. if fst kv = k then (k, v) else kv) kvs
                   else kvs @ [(k, v)]))"
| "set_item k v j = Inl TypeError"

text \<open>\<^verbatim>\<open>if key not in task: task[key] = value\<close>\<close>

definition fill :: "string \<Rightarrow> json \<Rightarrow> json \<Rightarrow> py_error + json" where
  "fill k v t =
     (case contains k t of
        Inl e \<Rightarrow> Inl e
      | Inr present \<Rightarrow> if present then Inr t else set_item k v t)"

definition migrate_json :: "string \<Rightarrow> json \<Rightarrow> py_error + json" where
  "migrate_json now t =
     (case fill ''priority'' (JNumber 2) t of
        Inl e \<Rightarrow> Inl e
      | Inr t \<Rightarrow>
          (case fill ''tags'' (JArray []) t of
             Inl e \<Rightarrow> Inl e
           | Inr t \<Rightarrow> fill ''created'' (JString now) t))"

fun migrate_all :: "string \<Rightarrow> json list \<Rightarrow> py_error + json list" where
  "migrate_all now [] = Inr []"
| "migrate_all now (t # ts) =
     (case migrate_json now t of
        Inl e \<Rightarrow> Inl e
      | Inr t' \<Rightarrow> (case migrate_all now ts of Inl e \<Rightarrow> Inl e | Inr ts' \<Rightarrow> Inr (t' # ts')))"

text \<open>
  What \<^verbatim>\<open>load_tasks\<close> prints, and what it returns or raises. The handler catches
  \<^verbatim>\<open>JSONDecodeError\<close> and \<^verbatim>\<open>KeyError\<close> only, so a \<^verbatim>\<open>TypeError\<close> leaves the function.
  The elements of an array are changed in place; the keys of an object and the characters
  of a string are values of their own, so the object or string is returned as it was.
\<close>

definition load_tasks_json :: "string \<Rightarrow> file_content \<Rightarrow> msg list \<times> (py_error + json)" where
  "load_tasks_json now f =
     (case f of
        No_file \<Rightarrow> ([], Inr (JArray []))
      | Invalid_json \<Rightarrow> ([Storage_msg Error_reading_todo_file], Inr (JArray []))
      | Json j \<Rightarrow>
          (case iterate j of
             Inl e \<Rightarrow> ([], Inl e)
           | Inr elems \<Rightarrow>
               (case migrate_all now elems of
                  Inl KeyError \<Rightarrow> ([Storage_msg Error_reading_todo_file], Inr (JArray []))
                | Inl e \<Rightarrow> ([], Inl e)
                | Inr elems' \<Rightarrow> ([], Inr (case j of JArray xs \<Rightarrow> JArray elems' | _ \<Rightarrow> j)))))"

text \<open>
  The task dictionary a JSON object stands for, when it is one: the five keys with values
  of the types of the data model, \<^verbatim>\<open>desc\<close> and \<^verbatim>\<open>done\<close> present, and no other key.
\<close>

definition string_of_json :: "json \<Rightarrow> string option" where
  "string_of_json j = (case j of JString s \<Rightarrow> Some s | _ \<Rightarrow> None)"

definition strings_of_json :: "json \<Rightarrow> string list option" where
  "strings_of_json j =
     (case j of
        JArray xs \<Rightarrow>
          if list_all (\<lambda>x. string_of_json x \<noteq> None) xs then Some (map (\<lambda>x. the (string_of_json x)) xs)
          else None
      | _ \<Rightarrow> None)"

definition task_of_json :: "json \<Rightarrow> task option" where
  "task_of_json j =
     (case j of
        JObject kvs \<Rightarrow>
          (let m = map_of kvs
           in if distinct (map fst kvs) \<and>
                 set (map fst kvs) \<subseteq> {''desc'', ''done'', ''priority'', ''tags'', ''created''} \<and>
                 (case m ''priority'' of None \<Rightarrow> True | Some (JNumber n) \<Rightarrow> True | _ \<Rightarrow> False) \<and>
                 (case m ''tags'' of None \<Rightarrow> True | Some v \<Rightarrow> strings_of_json v \<noteq> None) \<and>
                 (case m ''created'' of None \<Rightarrow> True | Some v \<Rightarrow> string_of_json v \<noteq> None)
              then (case (m ''desc'', m ''done'') of
                      (Some (JString d), Some (JBool b)) \<Rightarrow>
                        Some \<lparr>desc = d, is_done = b,
                              priority = (case m ''priority'' of Some (JNumber n) \<Rightarrow> Some n | _ \<Rightarrow> None),
                              tags = (case m ''tags'' of Some v \<Rightarrow> strings_of_json v | None \<Rightarrow> None),
                              created = (case m ''created'' of Some v \<Rightarrow> string_of_json v | None \<Rightarrow> None)\<rparr>
                    | _ \<Rightarrow> None)
              else None)
      | _ \<Rightarrow> None)"

subsection \<open>The notions the specification uses\<close>

text \<open>A token: the sigil directly followed by a word character, somewhere in the text.\<close>

fun has_token :: "char \<Rightarrow> string \<Rightarrow> bool" where
  "has_token sg [] = False"
| "has_token sg (c # cs) =
     ((c = sg \<and> (case cs of [] \<Rightarrow> False | x # xs \<Rightarrow> is_word x)) \<or> has_token sg cs)"

text \<open>
  The first token of a text \<open>r\<close>, said without the scanner: \<open>r\<close> is \<open>pre\<close>, the sigil, the
  word \<open>name\<close> and \<open>rest\<close>; the word is not empty and cannot be made longer; there is no
  token in \<open>pre\<close>.
\<close>

definition first_match :: "char \<Rightarrow> string \<Rightarrow> string \<Rightarrow> string \<Rightarrow> string \<Rightarrow> bool" where
  "first_match sg r pre name rest =
     (r = pre @ sg # name @ rest \<and> name \<noteq> [] \<and> list_all is_word name \<and>
      (case rest of [] \<Rightarrow> True | x # xs \<Rightarrow> \<not> is_word x) \<and> \<not> has_token sg pre)"

text \<open>
  Following the specification's words for the priority token, "strip the matched token from
  the description": the first token is taken out and nothing else.
\<close>

fun spec_strip_matched_token :: "char \<Rightarrow> string \<Rightarrow> string" where
  "spec_strip_matched_token sg [] = []"
| "spec_strip_matched_token sg (c # cs) =
     (if c = sg \<and> takeWhile is_word cs \<noteq> [] then dropWhile is_word cs
      else c # spec_strip_matched_token sg cs)"

text \<open>
  The invariant of the data model: the description is not empty and not only whitespace,
  the priority is one of the four levels, and no tag contains the character \<open>#\<close>.
\<close>

definition task_ok :: "task \<Rightarrow> bool" where
  "task_ok t =
     (desc t \<noteq> [] \<and> \<not> list_all is_space (desc t) \<and> get_priority t \<in> {1, 2, 3, 4} \<and>
      list_all (\<lambda>tg. CHR ''#'' \<notin> set tg) (get_tags t))"

definition store_ok :: "world \<Rightarrow> bool" where
  "store_ok w = list_all task_ok (stored w)"

text \<open>The tags given with \<^verbatim>\<open>--tag\<close> on the command line, if any.\<close>

fun explicit_tags :: "command \<Rightarrow> string list" where
  "explicit_tags (Add words p (Some tg)) = tg"
| "explicit_tags (Update index d p (Some tg)) = tg"
| "explicit_tags c = []"

subsection \<open>Example worlds\<close>

text \<open>Worlds to run the program in: a writable file with the given tasks, nothing printed yet.\<close>

definition example_world :: "task list \<Rightarrow> world" where
  "example_world ts =
     \<lparr>disk = Tasks ts, writable = True, now_iso = ''2026-11-04T10:00:00.000000'',
      now_stamp = ''2026-11-04 10:00:00'', printed = [], saves = 0\<rparr>"

definition example_task :: "string \<Rightarrow> int \<Rightarrow> bool \<Rightarrow> task" where
  "example_task d p b =
     \<lparr>desc = d, is_done = b, priority = Some p, tags = Some [],
      created = Some ''2026-11-03 09:00:00''\<rparr>"

section \<open>Basic facts\<close>

subsection \<open>What printing and loading leave alone\<close>

lemma print_frame [simp]:
  "disk (print m w) = disk w" "saves (print m w) = saves w" "writable (print m w) = writable w"
  "now_iso (print m w) = now_iso w" "now_stamp (print m w) = now_stamp w"
  "printed (print m w) = printed w @ [m]"
  by (simp_all add: print_def)

lemma stored_print [simp]: "stored (print m w) = stored w"
  by (simp add: stored_def)

lemma load_tasks_frame [simp]:
  "disk (snd (load_tasks w)) = disk w" "saves (snd (load_tasks w)) = saves w"
  "writable (snd (load_tasks w)) = writable w" "now_iso (snd (load_tasks w)) = now_iso w"
  "now_stamp (snd (load_tasks w)) = now_stamp w"
  by (simp_all add: load_tasks_def split: todo_file.splits)

lemma fst_load_tasks: "fst (load_tasks w) = map (migrate (now_iso w)) (stored w)"
  by (simp add: load_tasks_def stored_def split: todo_file.splits)

lemma length_load_tasks [simp]: "length (fst (load_tasks w)) = length (stored w)"
  by (simp add: fst_load_tasks)

lemma render_grouped_frame:
  "disk (snd (render_grouped tasks sc cur ts w)) = disk w \<and>
   saves (snd (render_grouped tasks sc cur ts w)) = saves w"
  by (induction tasks sc cur ts w rule: render_grouped.induct)
     (auto simp: Let_def split: option.splits sum.splits if_splits)

lemma render_flat_frame:
  "disk (snd (render_flat tasks sc ts w)) = disk w \<and>
   saves (snd (render_flat tasks sc ts w)) = saves w"
  by (induction tasks sc ts w rule: render_flat.induct) (auto split: option.splits)

lemma list_tasks_frame:
  "disk (snd (list_tasks ft fp sb sd sc w)) = disk w \<and>
   saves (snd (list_tasks ft fp sb sd sc w)) = saves w"
  unfolding list_tasks_def
  by (cases "load_tasks w")
     (use load_tasks_frame(1,2) [of w] in
       \<open>auto simp: Let_def render_grouped_frame render_flat_frame split: prod.splits\<close>)

lemma foldl_frame:
  assumes "\<And>w x. disk (f w x) = disk w \<and> saves (f w x) = saves w"
  shows "disk (foldl f w xs) = disk w \<and> saves (foldl f w xs) = saves w"
  by (induction xs arbitrary: w) (simp_all add: assms)

lemma print_priority_counts_frame:
  "disk (print_priority_counts pc w) = disk w \<and> saves (print_priority_counts pc w) = saves w"
proof (cases "pc = []")
  case True
  then show ?thesis by (simp add: print_priority_counts_def)
next
  case False
  have "disk (foldl (\<lambda>w priority_name. case map_of pc priority_name of None \<Rightarrow> w
               | Some n \<Rightarrow> print (Stats_msg (Priority_count priority_name n)) w)
            (print (Stats_msg Attention_header) w) xs) = disk (print (Stats_msg Attention_header) w) \<and>
        saves (foldl (\<lambda>w priority_name. case map_of pc priority_name of None \<Rightarrow> w
               | Some n \<Rightarrow> print (Stats_msg (Priority_count priority_name n)) w)
            (print (Stats_msg Attention_header) w) xs) = saves (print (Stats_msg Attention_header) w)"
    for xs
    by (rule foldl_frame) (simp split: option.splits)
  with False show ?thesis
    unfolding print_priority_counts_def by (simp only: if_False print_frame) 
qed

lemma print_tag_counts_frame:
  "disk (print_tag_counts tc w) = disk w \<and> saves (print_tag_counts tc w) = saves w"
proof (cases "tc = []")
  case True
  then show ?thesis by (simp add: print_tag_counts_def)
next
  case False
  have "disk (foldl (\<lambda>w (tg, n). print (Stats_msg (Tag_count tg n)) w)
            (print (Stats_msg Categories_header) w) xs) = disk (print (Stats_msg Categories_header) w) \<and>
        saves (foldl (\<lambda>w (tg, n). print (Stats_msg (Tag_count tg n)) w)
            (print (Stats_msg Categories_header) w) xs) = saves (print (Stats_msg Categories_header) w)"
    for xs
    by (rule foldl_frame) (simp split: prod.splits)
  with False show ?thesis
    unfolding print_tag_counts_def by (simp only: if_False print_frame)
qed

lemma map_sum_id_Inr: "map_sum id f x = Inr y \<Longrightarrow> \<exists>v. x = Inr v \<and> y = f v"
  by (cases x) auto

lemma show_stats_frame:
  "disk (snd (show_stats w)) = disk w \<and> saves (snd (show_stats w)) = saves w"
  unfolding show_stats_def
  by (cases "load_tasks w")
     (use load_tasks_frame(1,2) [of w] in
       \<open>auto simp: Let_def print_priority_counts_frame print_tag_counts_frame
          split: prod.splits sum.splits dest!: map_sum_id_Inr\<close>)

section \<open>The claims\<close>

text \<open>
  C10. Listing and statistics are read-only: for every world and every combination of
  filter, sort and display options, \<^verbatim>\<open>list_tasks\<close> and \<^verbatim>\<open>show_stats\<close> never call
  \<^verbatim>\<open>save_tasks\<close> (the counter \<open>saves\<close> is unchanged) and the file is afterwards what it
  was before, also when the command ends with an exception.
\<close>

theorem list_and_stats_read_only:
  "disk (snd (list_tasks filter_tags filter_priority sort_by show_done show_created w)) = disk w \<and>
   saves (snd (list_tasks filter_tags filter_priority sort_by show_done show_created w)) = saves w \<and>
   disk (snd (show_stats w)) = disk w \<and> saves (snd (show_stats w)) = saves w"
  using list_tasks_frame show_stats_frame by blast

lemma fst_load_valid [simp]: "valid_index i (fst (load_tasks w)) = valid_index i (stored w)"
  by (simp add: valid_index_def)

text \<open>
  C7. An index outside \<open>1..N\<close>, where \<open>N\<close> is the number of stored tasks: each of
  \<^verbatim>\<open>mark_done\<close>, \<^verbatim>\<open>mark_undone\<close>, \<^verbatim>\<open>delete_task\<close> and \<^verbatim>\<open>update_task\<close> returns
  \<^verbatim>\<open>False\<close> after printing the message that names the range \<open>1-N\<close>, and that is all it
  does after loading: the file is unchanged and \<^verbatim>\<open>save_tasks\<close> is not called.
\<close>

theorem index_out_of_range:
  assumes "\<not> (1 \<le> index \<and> index \<le> int (length (stored w)))"
  shows "(let w' = print (Task_msg (Invalid_task_number (length (stored w)))) (snd (load_tasks w))
          in mark_done index w = (Inr False, w') \<and>
             mark_undone index w = (Inr False, w') \<and>
             delete_task index w = (Inr False, w') \<and>
             update_task index d p tg w = (Inr False, w') \<and>
             disk w' = disk w \<and> saves w' = saves w)"
  using assms
  by (simp add: mark_done_def mark_undone_def delete_task_def update_task_def
        valid_index_def split_beta Let_def)

theorem index_out_of_range_witness:
  "\<not> (1 \<le> (3::int) \<and> 3 \<le> int (length (stored (example_world [example_task ''A'' 1 False])))) \<and>
   fst (mark_done 3 (example_world [example_task ''A'' 1 False])) = Inr False \<and>
   stored (snd (delete_task 3 (example_world [example_task ''A'' 1 False]))) =
     [example_task ''A'' 1 False] \<and>
   printed (snd (mark_undone 3 (example_world [example_task ''A'' 1 False]))) =
     [Task_msg (Invalid_task_number 1)]"
  using index_out_of_range [of 3 "example_world [example_task ''A'' 1 False]" None None None]
  by (simp add: example_world_def stored_def load_tasks_def print_def Let_def)

text \<open>
  C6. The claim says that \<^verbatim>\<open>add_task\<close> and \<^verbatim>\<open>update_task\<close> fail and change nothing
  whenever parsing the description leaves nothing of it. \<^verbatim>\<open>update_task\<close> calls the
  parser under \<^verbatim>\<open>if desc:\<close>, and the empty string is false in Python: with the
  description \<^verbatim>\<open>''\<close>, on which the parser fails, and the priority \<^verbatim>\<open>high\<close> it does not
  call the parser, sets the priority, saves and returns \<^verbatim>\<open>True\<close>.
\<close>

theorem empty_description_update_counterexample:
  "fst (snd (parse_tags_and_priority [])) = None \<and>
   update_task 1 (Some []) (Some ''high'') None (example_world [example_task ''A'' 1 False]) =
     (Inr True,
      (example_world [example_task ''A'' 3 False])
        \<lparr>printed := [Task_msg (Updated 1 [Priority_change ''low'' ''high''])], saves := 1\<rparr>)"
proof -
  have 1: "fst (snd (parse_tags_and_priority [])) = None" by code_simp
  have 2: "update_task 1 (Some []) (Some ''high'') None (example_world [example_task ''A'' 1 False]) =
     (Inr True,
      (example_world [example_task ''A'' 3 False])
        \<lparr>printed := [Task_msg (Updated 1 [Priority_change ''low'' ''high''])], saves := 1\<rparr>)"
    by code_simp
  from 1 2 show ?thesis by simp
qed

lemma parse_failure_message:
  assumes "fst (snd (parse_tags_and_priority d)) = None"
  shows "fst (parse_tags_and_priority d) \<noteq> [] \<and>
         last (fst (parse_tags_and_priority d)) = Parser_msg (Empty_description d)"
  using assms unfolding parse_tags_and_priority_def
  by (auto simp: Let_def split: option.splits prod.splits if_splits)

text \<open>
  C6, as the code has it. When the parser finds nothing left of a description,
  \<^verbatim>\<open>add_task\<close> returns \<^verbatim>\<open>False\<close>, its last message is the error that quotes the
  original input, the file is unchanged and \<^verbatim>\<open>save_tasks\<close> is not called. The same
  holds for \<^verbatim>\<open>update_task\<close> with a new description that is not the empty string (which
  \<^verbatim>\<open>if desc:\<close> takes as no description at all); the parser's error is its last message
  when the index is valid, since the index is checked first.
\<close>

theorem empty_description_rejected:
  assumes "fst (snd (parse_tags_and_priority d)) = None"
  shows "fst (add_task d p tg w) = Inr False \<and>
         disk (snd (add_task d p tg w)) = disk w \<and>
         saves (snd (add_task d p tg w)) = saves w \<and>
         last (printed (snd (add_task d p tg w))) = Parser_msg (Empty_description d) \<and>
         (d \<noteq> [] \<longrightarrow>
            fst (update_task index (Some d) p tg w) = Inr False \<and>
            disk (snd (update_task index (Some d) p tg w)) = disk w \<and>
            saves (snd (update_task index (Some d) p tg w)) = saves w \<and>
            (valid_index index (stored w) \<longrightarrow>
               last (printed (snd (update_task index (Some d) p tg w))) =
                 Parser_msg (Empty_description d)))"
proof -
  obtain out tgs pr where parsed: "parse_tags_and_priority d = (out, None, tgs, pr)"
    using assms by (cases "parse_tags_and_priority d") auto
  from parse_failure_message [OF assms] parsed
  have out: "out \<noteq> []" "last out = Parser_msg (Empty_description d)" by simp_all
  have add: "add_task d p tg w = (Inr False, w\<lparr>printed := printed w @ out\<rparr>)"
    by (simp add: add_task_def parsed)
  have upd: "fst (update_task index (Some d) p tg w) = Inr False \<and>
             disk (snd (update_task index (Some d) p tg w)) = disk w \<and>
             saves (snd (update_task index (Some d) p tg w)) = saves w \<and>
             (valid_index index (stored w) \<longrightarrow>
                last (printed (snd (update_task index (Some d) p tg w))) =
                  Parser_msg (Empty_description d))" if "d \<noteq> []"
    using that out
    by (simp add: update_task_def parsed split_beta truthy_def)
  from add out upd show ?thesis by simp
qed

theorem empty_description_rejected_witness:
  "fst (snd (parse_tags_and_priority ''   #tag   '')) = None \<and>
   fst (add_task ''   #tag   '' None None (example_world [])) = Inr False \<and>
   disk (snd (add_task ''   #tag   '' None None (example_world []))) = Tasks [] \<and>
   fst (update_task 1 (Some ''   #tag   '') None None (example_world [example_task ''A'' 1 False]))
     = Inr False \<and>
   last (printed (snd (update_task 1 (Some ''   #tag   '') None None
       (example_world [example_task ''A'' 1 False])))) =
     Parser_msg (Empty_description ''   #tag   '')"
proof -
  have h: "fst (snd (parse_tags_and_priority ''   #tag   '')) = None" by code_simp
  have v: "valid_index 1 (stored (example_world [example_task ''A'' 1 False]))"
    by (simp add: valid_index_def stored_def example_world_def)
  from empty_description_rejected [OF h, of None None "example_world []"]
    empty_description_rejected [OF h, of None None "example_world [example_task ''A'' 1 False]" 1]
    h v
  show ?thesis by (simp add: example_world_def)
qed

text \<open>
  C4. The claim says that explicit tags, also an empty list of them, replace the tags
  found in the text. \<^verbatim>\<open>add_task\<close> chooses with \<^verbatim>\<open>tags if tags else inline_tags\<close>, and
  the empty list is false in Python: with the text \<^verbatim>\<open>Fix #a\<close> and the explicit tags
  \<^verbatim>\<open>[]\<close> the new task carries the tag \<^verbatim>\<open>a\<close>. The command line never passes the
  empty list: \<^verbatim>\<open>--tag\<close> is collected with \<^verbatim>\<open>action="append"\<close>, which gives \<^verbatim>\<open>None\<close> or
  a list with at least one tag.
\<close>

theorem add_task_empty_explicit_tags:
  "stored (snd (add_task ''Fix #a'' None (Some []) (example_world []))) =
     [\<lparr>desc = ''Fix'', is_done = False, priority = Some 2, tags = Some [''a''],
       created = Some ''2026-11-04 10:00:00''\<rparr>]"
  by code_simp

text \<open>
  C4, as the code has it. When the parser returns a description and the file can be
  written, \<^verbatim>\<open>add_task\<close> appends one task; its tags are the explicit tags when these are
  given and not empty, and the tags found in the text when no explicit tags are given or
  the explicit list is empty.
\<close>

theorem add_task_final_tags:
  assumes "parse_tags_and_priority d = (out, Some cleaned, itags, ip)" and "writable w"
  shows "length (stored (snd (add_task d p tags0 w))) = Suc (length (stored w)) \<and>
         (\<forall>tg. tags0 = Some tg \<and> tg \<noteq> [] \<longrightarrow>
            tags (last (stored (snd (add_task d p tags0 w)))) = Some tg) \<and>
         (tags0 = None \<or> tags0 = Some [] \<longrightarrow>
            tags (last (stored (snd (add_task d p tags0 w)))) = Some itags)"
proof -
  let ?w1 = "w\<lparr>printed := printed w @ out\<rparr>"
  obtain tasks w2 where l: "load_tasks ?w1 = (tasks, w2)" by (cases "load_tasks ?w1") auto
  from load_tasks_frame(3) [of ?w1] l assms(2) have wr: "writable w2" by simp
  from length_load_tasks [of ?w1] l have len: "length tasks = length (stored w)"
    by (simp add: stored_def)
  define fp where "fp = (case (if truthy p then map_of PRIORITIES (lower (the p)) else None) of
                           Some q \<Rightarrow> q | None \<Rightarrow> ip)"
  define ft where "ft = (if truthy tags0 then the tags0 else itags)"
  define nt where "nt = \<lparr>desc = cleaned, is_done = False, priority = Some fp, tags = Some ft,
                         created = Some (now_stamp w2)\<rparr>"
  have eq: "add_task d p tags0 w =
      (case map_of PRIORITY_NAMES fp of
         None \<Rightarrow> (Inl KeyError, save_tasks (tasks @ [nt]) w2)
       | Some nm \<Rightarrow> (Inr True, print (Task_msg (Added nm cleaned ft))
                   (save_tasks (tasks @ [nt]) w2)))"
    unfolding fp_def ft_def nt_def
    by (simp add: add_task_def assms(1) l Let_def split del: if_split)
  have sv: "stored (save_tasks (tasks @ [nt]) w2) = tasks @ [nt]"
    using wr by (simp add: save_tasks_def Let_def stored_def)
  have st: "stored (snd (add_task d p tags0 w)) = tasks @ [nt]"
    by (simp add: eq sv split: option.splits)
  have t: "tags nt = Some ft" by (simp add: nt_def)
  show ?thesis
    unfolding st using len t by (auto simp: ft_def truthy_def)
qed

theorem add_task_final_tags_witness:
  "parse_tags_and_priority ''Fix #a'' = ([], Some ''Fix'', [''a''], 2) \<and>
   writable (example_world []) \<and>
   tags (last (stored (snd (add_task ''Fix #a'' None (Some [''x'']) (example_world []))))) =
     Some [''x''] \<and>
   tags (last (stored (snd (add_task ''Fix #a'' None None (example_world []))))) = Some [''a'']"
proof -
  have a: "parse_tags_and_priority ''Fix #a'' = ([], Some ''Fix'', [''a''], 2)" by code_simp
  have b: "writable (example_world [])" by (simp add: example_world_def)
  from add_task_final_tags [OF a b, of None "Some [''x'']"]
    add_task_final_tags [OF a b, of None None] a b
  show ?thesis by simp
qed

text \<open>\<^verbatim>\<open>update_task\<close>, for comparison, takes the explicit tags \<^verbatim>\<open>[]\<close> as given.\<close>

lemma update_task_empty_explicit_tags:
  "map tags (stored (snd (update_task 1 (Some ''Fix #a'') None (Some [])
      (example_world [(example_task ''A'' 2 False)\<lparr>tags := Some [''b'']\<rparr>])))) = [Some []]"
  by code_simp

text \<open>
  C5. The claim says that every listed task is shown with its position in the stored
  sequence. \<^verbatim>\<open>list_tasks\<close> computes the number as \<^verbatim>\<open>tasks.index(task) + 1\<close>, the
  position of the first task that is equal: of two tasks with the same fields, both are
  shown as number 1.
\<close>

theorem list_tasks_identical_tasks:
  "printed (snd (list_tasks None None ''priority'' False False
      (example_world [example_task ''A'' 2 False, example_task ''A'' 2 False]))) =
     [List_msg (Pending_tasks_header 2 2), List_msg (Group_header 2 ''normal''),
      List_msg (Task_line True (Formatted 1 False 2 ''A'' [] None)),
      List_msg (Task_line True (Formatted 1 False 2 ''A'' [] None))]"
  by code_simp

text \<open>
  A second way to the wrong number: with \<^verbatim>\<open>--done\<close> and no other filter,
  \<^verbatim>\<open>filtered_tasks\<close> is the list \<^verbatim>\<open>tasks\<close> itself, the sort reorders it, and the numbers
  are positions in the sorted list. The stored order is A, B; B is shown as 1 and A as 2.
\<close>

lemma list_tasks_sorts_the_loaded_list:
  "printed (snd (list_tasks None None ''priority'' True False
      (example_world [example_task ''A'' 1 False, example_task ''B'' 3 False]))) =
     [List_msg (All_tasks_header 2 2 0), List_msg (Group_header 3 ''high''),
      List_msg (Task_line True (Formatted 1 False 3 ''B'' [] None)),
      List_msg Blank_line, List_msg (Group_header 1 ''low''),
      List_msg (Task_line True (Formatted 2 False 1 ''A'' [] None))]"
  by code_simp

text \<open>The scenario of the specification, without \<^verbatim>\<open>--done\<close>: A keeps 1 and B keeps 2.\<close>

lemma list_tasks_spec_scenario:
  "printed (snd (list_tasks None None ''priority'' False False
      (example_world [example_task ''A'' 1 False, example_task ''B'' 3 False]))) =
     [List_msg (Pending_tasks_header 2 2), List_msg (Group_header 3 ''high''),
      List_msg (Task_line True (Formatted 2 False 3 ''B'' [] None)),
      List_msg Blank_line, List_msg (Group_header 1 ''low''),
      List_msg (Task_line True (Formatted 1 False 1 ''A'' [] None))]"
  by code_simp

text \<open>
  C8. The claim says that \<^verbatim>\<open>load_tasks\<close> answers a file that is not an array of task
  objects with a message and the empty list. The handler names \<^verbatim>\<open>JSONDecodeError\<close> and
  \<^verbatim>\<open>KeyError\<close>; the migration loop raises \<^verbatim>\<open>TypeError\<close> on an element that is not an
  object, which no handler of \<^verbatim>\<open>load_tasks\<close> catches: on the file \<^verbatim>\<open>[1]\<close> nothing is
  printed and nothing is returned.
\<close>

theorem load_tasks_json_type_error:
  "load_tasks_json now (Json (JArray [JNumber 1])) = ([], Inl TypeError)"
  by (simp add: load_tasks_json_def migrate_json_def fill_def)

text \<open>The part of the claim about text that is not JSON holds.\<close>

lemma load_tasks_json_decode_error:
  "load_tasks_json now Invalid_json = ([Storage_msg Error_reading_todo_file], Inr (JArray []))"
  by (simp add: load_tasks_json_def)

text \<open>
  C2. The claim says that \<^verbatim>\<open>mark_done\<close> followed by \<^verbatim>\<open>mark_undone\<close>, or the other way
  round, gives the task its original \<open>done\<close> value back. Both functions set the value
  and do nothing when it is already set, so the second one decides: a completed task is
  pending after \<^verbatim>\<open>mark_done\<close> and \<^verbatim>\<open>mark_undone\<close>.
\<close>

theorem done_then_undone_counterexample:
  "is_done (stored (snd (mark_undone 1 (snd (mark_done 1
      (example_world [example_task ''A'' 2 True]))))) ! 0) \<noteq>
   is_done (stored (example_world [example_task ''A'' 2 True]) ! 0)"
  by code_simp

lemma migrate_fields [simp]:
  "is_done (migrate n t) = is_done t" "desc (migrate n t) = desc t"
  by (simp_all add: migrate_def Let_def)

lemma migrate_migrate [simp]: "migrate n2 (migrate n1 t) = migrate n1 t"
  by (simp add: migrate_def Let_def)

lemma migrate_comp [simp]: "migrate n2 \<circ> migrate n1 = migrate n1"
  by (simp add: fun_eq_iff)

lemma migrate_done_update [simp]:
  "migrate n (t\<lparr>is_done := b\<rparr>) = (migrate n t)\<lparr>is_done := b\<rparr>"
  by (simp add: migrate_def Let_def)

lemma valid_index_nat: "valid_index i xs \<Longrightarrow> nat (i - 1) < length xs"
  by (auto simp: valid_index_def)

lemma valid_index_stored: "valid_index i (stored w) \<Longrightarrow> \<exists>ts. disk w = Tasks ts \<and> stored w = ts"
  by (auto simp: valid_index_def stored_def split: todo_file.splits)

lemma mark_done_stored:
  assumes "writable w" "valid_index i (stored w)"
  shows "stored (snd (mark_done i w)) =
     (if is_done (stored w ! nat (i - 1)) then stored w
      else (map (migrate (now_iso w)) (stored w))
             [nat (i - 1) := (migrate (now_iso w) (stored w ! nat (i - 1)))\<lparr>is_done := True\<rparr>])"
    and "writable (snd (mark_done i w))"
proof -
  obtain ts where ts: "disk w = Tasks ts" "stored w = ts"
    using valid_index_stored [OF assms(2)] by blast
  have k: "nat (i - 1) < length ts" using assms(2) ts(2) by (simp add: valid_index_nat)
  have v: "valid_index i (map (migrate (now_iso w)) ts)"
    using assms(2) ts(2) by (simp add: valid_index_def)
  show "stored (snd (mark_done i w)) =
     (if is_done (stored w ! nat (i - 1)) then stored w
      else (map (migrate (now_iso w)) (stored w))
             [nat (i - 1) := (migrate (now_iso w) (stored w ! nat (i - 1)))\<lparr>is_done := True\<rparr>])"
    unfolding ts(2) using k v assms(1) ts(1)
    by (simp add: mark_done_def load_tasks_def save_tasks_def Let_def stored_def print_def)
  show "writable (snd (mark_done i w))"
    using k v assms(1) ts(1)
    by (simp add: mark_done_def load_tasks_def save_tasks_def Let_def print_def)
qed

lemma mark_undone_stored:
  assumes "writable w" "valid_index i (stored w)"
  shows "stored (snd (mark_undone i w)) =
     (if \<not> is_done (stored w ! nat (i - 1)) then stored w
      else (map (migrate (now_iso w)) (stored w))
             [nat (i - 1) := (migrate (now_iso w) (stored w ! nat (i - 1)))\<lparr>is_done := False\<rparr>])"
    and "writable (snd (mark_undone i w))"
proof -
  obtain ts where ts: "disk w = Tasks ts" "stored w = ts"
    using valid_index_stored [OF assms(2)] by blast
  have k: "nat (i - 1) < length ts" using assms(2) ts(2) by (simp add: valid_index_nat)
  have v: "valid_index i (map (migrate (now_iso w)) ts)"
    using assms(2) ts(2) by (simp add: valid_index_def)
  show "stored (snd (mark_undone i w)) =
     (if \<not> is_done (stored w ! nat (i - 1)) then stored w
      else (map (migrate (now_iso w)) (stored w))
             [nat (i - 1) := (migrate (now_iso w) (stored w ! nat (i - 1)))\<lparr>is_done := False\<rparr>])"
    unfolding ts(2) using k v assms(1) ts(1)
    by (simp add: mark_undone_def load_tasks_def save_tasks_def Let_def stored_def print_def)
  show "writable (snd (mark_undone i w))"
    using k v assms(1) ts(1)
    by (simp add: mark_undone_def load_tasks_def save_tasks_def Let_def print_def)
qed

lemma stored_clock [simp]: "stored (w\<lparr>now_iso := n\<rparr>) = stored w"
  by (simp add: stored_def)

lemma map_migrate_update:
  "k < length ts \<Longrightarrow> map (migrate n2) ((map (migrate n1) ts)[k := (migrate n1 (ts ! k))\<lparr>is_done := b\<rparr>])
     = (map (migrate n1) ts)[k := (migrate n1 (ts ! k))\<lparr>is_done := b\<rparr>]"
  by (simp add: map_update)

text \<open>
  C2, as the code has it. With a file that can be written and an index in \<open>1..N\<close>:
  after \<^verbatim>\<open>mark_done\<close> and \<^verbatim>\<open>mark_undone\<close> task \<open>index\<close> is pending, after
  \<^verbatim>\<open>mark_undone\<close> and \<^verbatim>\<open>mark_done\<close> it is completed, whatever it was before; so the
  original value comes back exactly when the first of the two changed it. Nothing else
  changes in any task, except that \<^verbatim>\<open>load_tasks\<close> fills in the keys \<^verbatim>\<open>priority\<close>,
  \<^verbatim>\<open>tags\<close> and \<^verbatim>\<open>created\<close> where a task lacks them (with the clock of the command
  that saves first; the second command runs at the time \<open>n2\<close>).
\<close>

theorem done_then_undone:
  assumes "writable w" and "valid_index index (stored w)"
  shows "(let k = nat (index - 1); ts = stored w;
              n = (if is_done (ts ! k) then n2 else now_iso w);
              m = (if is_done (ts ! k) then now_iso w else n2)
          in stored (snd (mark_undone index ((snd (mark_done index w))\<lparr>now_iso := n2\<rparr>))) =
               (map (migrate n) ts)[k := (migrate n (ts ! k))\<lparr>is_done := False\<rparr>] \<and>
             stored (snd (mark_done index ((snd (mark_undone index w))\<lparr>now_iso := n2\<rparr>))) =
               (map (migrate m) ts)[k := (migrate m (ts ! k))\<lparr>is_done := True\<rparr>])"
proof -
  let ?k = "nat (index - 1)"
  let ?ts = "stored w"
  have k: "?k < length ?ts" using assms(2) by (rule valid_index_nat)
  let ?w1 = "(snd (mark_done index w))\<lparr>now_iso := n2\<rparr>"
  let ?w2 = "(snd (mark_undone index w))\<lparr>now_iso := n2\<rparr>"
  have len1: "length (stored ?w1) = length ?ts"
    using k by (simp add: mark_done_stored(1) [OF assms])
  have len2: "length (stored ?w2) = length ?ts"
    using k by (simp add: mark_undone_stored(1) [OF assms])
  have v1: "valid_index index (stored ?w1)"
    using assms(2) len1 by (simp add: valid_index_def)
  have v2: "valid_index index (stored ?w2)"
    using assms(2) len2 by (simp add: valid_index_def)
  have wr1: "writable ?w1" by (simp add: mark_done_stored(2) [OF assms])
  have wr2: "writable ?w2" by (simp add: mark_undone_stored(2) [OF assms])
  have a: "stored (snd (mark_undone index ?w1)) =
      (map (migrate (if is_done (?ts ! ?k) then n2 else now_iso w)) ?ts)
        [?k := (migrate (if is_done (?ts ! ?k) then n2 else now_iso w) (?ts ! ?k))\<lparr>is_done := False\<rparr>]"
    using k
    by (simp add: mark_undone_stored(1) [OF wr1 v1] mark_done_stored(1) [OF assms] map_update)
  have b: "stored (snd (mark_done index ?w2)) =
      (map (migrate (if is_done (?ts ! ?k) then now_iso w else n2)) ?ts)
        [?k := (migrate (if is_done (?ts ! ?k) then now_iso w else n2) (?ts ! ?k))\<lparr>is_done := True\<rparr>]"
    using k
    by (simp add: mark_done_stored(1) [OF wr2 v2] mark_undone_stored(1) [OF assms] map_update)
  from a b show ?thesis by (simp add: Let_def)
qed

theorem done_then_undone_witness:
  "writable (example_world [example_task ''A'' 2 True]) \<and>
   valid_index 1 (stored (example_world [example_task ''A'' 2 True])) \<and>
   stored (snd (mark_undone 1 ((snd (mark_done 1 (example_world [example_task ''A'' 2 True])))
      \<lparr>now_iso := ''2026-11-05''\<rparr>))) =
     (map (migrate ''2026-11-05'') [example_task ''A'' 2 True])
       [0 := (migrate ''2026-11-05'' (example_task ''A'' 2 True))\<lparr>is_done := False\<rparr>]"
proof -
  have w: "writable (example_world [example_task ''A'' 2 True])"
    by (simp add: example_world_def)
  have s: "stored (example_world [example_task ''A'' 2 True]) = [example_task ''A'' 2 True]"
    by (simp add: example_world_def stored_def)
  have v: "valid_index 1 (stored (example_world [example_task ''A'' 2 True]))"
    by (simp add: s valid_index_def)
  have d: "is_done (example_task ''A'' 2 True)"
    by (simp add: example_task_def)
  from done_then_undone [OF w v, of "''2026-11-05''"] w v d
  show ?thesis
    by (simp only: Let_def s) simp
qed

subsection \<open>Facts about the scanners and about whitespace\<close>

lemma sigils_not_word [simp]: "\<not> is_word CHR ''#''" "\<not> is_word CHR ''@''"
  by (simp_all add: is_word_def)

lemma space_is_space [simp]: "is_space CHR '' ''"
  by (simp add: is_space_def)

lemma takeWhile_nonempty: "takeWhile P cs \<noteq> [] \<longleftrightarrow> (case cs of [] \<Rightarrow> False | x # xs \<Rightarrow> P x)"
  by (cases cs) auto

lemma no_token_scan:
  "\<not> has_token sg s \<Longrightarrow>
     findall_token sg s = [] \<and> sub_token sg s = s \<and> search_token sg s = None"
  by (induction s) (auto simp: takeWhile_nonempty)

lemma search_token_None: "search_token sg s = None \<longleftrightarrow> \<not> has_token sg s"
  by (induction s) (auto simp: takeWhile_nonempty)


lemma split_ws_words:
  "w \<in> set (split_ws s) \<Longrightarrow> w \<noteq> [] \<and> (\<forall>c\<in>set w. \<not> is_space c)"
proof (induction s arbitrary: w rule: split_ws.induct)
  case 1
  then show ?case by simp
next
  case (2 c cs)
  show ?case
  proof (cases "is_space c")
    case True
    with 2 show ?thesis by simp
  next
    case False
    with 2(3) have "w = c # takeWhile (\<lambda>x. \<not> is_space x) cs \<or>
        w \<in> set (split_ws (dropWhile (\<lambda>x. \<not> is_space x) cs))"
      by simp
    then show ?thesis
    proof
      assume "w = c # takeWhile (\<lambda>x. \<not> is_space x) cs"
      with False show ?thesis by (auto dest: set_takeWhileD)
    next
      assume "w \<in> set (split_ws (dropWhile (\<lambda>x. \<not> is_space x) cs))"
      with 2(2) [OF False] show ?thesis by blast
    qed
  qed
qed

lemma split_ws_word:
  assumes "w \<noteq> []" "\<forall>c\<in>set w. \<not> is_space c"
  shows "split_ws w = [w]"
proof -
  from assms obtain a w' where w: "w = a # w'" by (cases w) auto
  with assms have tw: "takeWhile (\<lambda>x. \<not> is_space x) w' = w'"
    and dw: "dropWhile (\<lambda>x. \<not> is_space x) w' = []"
    by auto
  from w assms have "\<not> is_space a" by simp
  then show ?thesis unfolding w by (simp add: tw dw)
qed

lemma split_ws_word_space:
  assumes "w \<noteq> []" "\<forall>c\<in>set w. \<not> is_space c" "is_space c"
  shows "split_ws (w @ c # rest) = w # split_ws rest"
proof -
  from assms obtain a w' where w: "w = a # w'" by (cases w) auto
  with assms have tw: "takeWhile (\<lambda>x. \<not> is_space x) (w' @ c # rest) = w'"
    and dw: "dropWhile (\<lambda>x. \<not> is_space x) (w' @ c # rest) = c # rest"
    by (auto simp: takeWhile_append2 dropWhile_append2)
  from w assms have "\<not> is_space a" by simp
  then show ?thesis unfolding w using assms(3) by (simp add: tw dw)
qed


lemma split_ws_join:
  "(\<forall>w\<in>set ws. w \<noteq> [] \<and> (\<forall>c\<in>set w. \<not> is_space c)) \<Longrightarrow> split_ws (join '' '' ws) = ws"
proof (induction ws rule: induct_list012)
  case 1
  then show ?case by simp
next
  case (2 x)
  then show ?case by (simp add: split_ws_word)
next
  case (3 x y ys)
  have "split_ws (join '' '' (x # y # ys)) = split_ws (x @ CHR '' '' # join '' '' (y # ys))"
    by simp
  also have "\<dots> = x # split_ws (join '' '' (y # ys))"
    using 3(3) by (intro split_ws_word_space) simp_all
  also have "split_ws (join '' '' (y # ys)) = y # ys"
    using 3(2) 3(3) by simp
  finally show ?case .
qed

lemma split_ws_normal: "split_ws (join '' '' (split_ws s)) = split_ws s"
  by (rule split_ws_join) (use split_ws_words in blast)

lemma join_ends:
  "ws \<noteq> [] \<Longrightarrow> \<forall>w\<in>set ws. w \<noteq> [] \<Longrightarrow>
     join sep ws \<noteq> [] \<and> hd (join sep ws) = hd (hd ws) \<and> last (join sep ws) = last (last ws)"
  by (induction ws rule: induct_list012) auto


lemma dropWhile_hd: "s \<noteq> [] \<Longrightarrow> \<not> P (hd s) \<Longrightarrow> dropWhile P s = s"
  by (cases s) simp_all

lemma strip_id:
  assumes "s = [] \<or> (\<not> is_space (hd s) \<and> \<not> is_space (last s))"
  shows "strip s = s"
proof (cases "s = []")
  case True
  then show ?thesis by (simp add: strip_def)
next
  case False
  with assms have a: "\<not> is_space (hd s)" and l: "\<not> is_space (last s)" by simp_all
  from False have r: "rev s \<noteq> []" by simp
  from False have "hd (rev s) = last s" by (simp add: hd_rev)
  with l have "dropWhile is_space (rev s) = rev s" using r by (simp add: dropWhile_hd)
  moreover from a False have "dropWhile is_space s = s" by (simp add: dropWhile_hd)
  ultimately show ?thesis by (simp add: strip_def)
qed

lemma strip_join_split: "strip (join '' '' (split_ws s)) = join '' '' (split_ws s)"
proof (cases "split_ws s = []")
  case True
  then show ?thesis by (simp add: strip_def)
next
  case False
  have w: "\<And>w. w \<in> set (split_ws s) \<Longrightarrow> w \<noteq> [] \<and> (\<forall>c\<in>set w. \<not> is_space c)"
    by (rule split_ws_words)
  then have ne: "\<forall>w\<in>set (split_ws s). w \<noteq> []" by blast
  from False have h: "hd (split_ws s) \<in> set (split_ws s)" and l: "last (split_ws s) \<in> set (split_ws s)"
    by simp_all
  from w [OF h] have "\<not> is_space (hd (hd (split_ws s)))" by simp
  moreover from w [OF l] have "\<not> is_space (last (last (split_ws s)))" by simp
  ultimately show ?thesis
    using join_ends [OF False ne, of "'' ''"] by (intro strip_id) simp
qed


lemma parse_cleaned_shape:
  assumes "parse_tags_and_priority s = (out, Some d, tgs, p)"
  shows "\<exists>x. d = join '' '' (split_ws x) \<and> d \<noteq> []"
proof (cases "search_token CHR ''@'' (strip (sub_token CHR ''#'' s))")
  case None
  with assms show ?thesis
    by (auto simp: parse_tags_and_priority_def Let_def split: if_splits)
next
  case (Some g)
  show ?thesis
  proof (cases "map_of PRIORITIES (lower g)")
    case None
    with Some assms show ?thesis
      by (auto simp: parse_tags_and_priority_def Let_def split: if_splits)
  next
    case (Some q)
    with \<open>search_token CHR ''@'' (strip (sub_token CHR ''#'' s)) = Some g\<close> assms show ?thesis
      by (auto simp: parse_tags_and_priority_def Let_def split: if_splits)
  qed
qed

text \<open>
  C9. The claim says that the cleaned description of every successful parse is a fixed
  point of the parser, with no tags, priority 2 and no warning. Taking a token out can
  bring a sigil and a word together: from \<^verbatim>\<open>##a b\<close> the parser takes the tag \<^verbatim>\<open>a\<close> with
  the space behind it and returns the description \<^verbatim>\<open>#b\<close>, in which the second parse
  finds the tag \<^verbatim>\<open>b\<close> and then nothing to describe.
\<close>

theorem parse_cleaned_again_counterexample:
  "parse_tags_and_priority ''##a b'' = ([], Some ''#b'', [''a''], 2) \<and>
   parse_tags_and_priority ''#b'' \<noteq> ([], Some ''#b'', [], 2)"
proof -
  have 1: "parse_tags_and_priority ''##a b'' = ([], Some ''#b'', [''a''], 2)"
    by code_simp
  have 2: "parse_tags_and_priority ''#b'' = ([Parser_msg (Empty_description ''#b'')], None, [], 2)"
    by code_simp
  from 1 2 show ?thesis by simp
qed

text \<open>
  C9, as the code has it. When the cleaned description of a successful parse contains no
  \<open>#\<close> and no \<open>@\<close> that is directly followed by a word character, the second parse
  returns that same description, no tags, priority 2 and prints nothing.
\<close>

theorem parse_cleaned_again:
  assumes "parse_tags_and_priority s = (out, Some d, tgs, p)"
    and "\<not> has_token CHR ''#'' d" and "\<not> has_token CHR ''@'' d"
  shows "parse_tags_and_priority d = ([], Some d, [], 2)"
proof -
  from parse_cleaned_shape [OF assms(1)]
  obtain x where d: "d = join '' '' (split_ws x)" and ne: "d \<noteq> []" by blast
  have 1: "findall_token CHR ''#'' d = []" "sub_token CHR ''#'' d = d"
    using no_token_scan [OF assms(2)] by simp_all
  have 2: "search_token CHR ''@'' d = None"
    using no_token_scan [OF assms(3)] by simp
  have 3: "strip d = d" unfolding d by (rule strip_join_split)
  have 4: "join '' '' (split_ws d) = d" unfolding d by (simp only: split_ws_normal)
  show ?thesis
    unfolding parse_tags_and_priority_def using ne by (simp add: 1 2 3 4)
qed


theorem parse_cleaned_again_witness:
  "parse_tags_and_priority ''Fix bug @urgent #backend'' =
     ([], Some ''Fix bug'', [''backend''], 4) \<and>
   \<not> has_token CHR ''#'' ''Fix bug'' \<and> \<not> has_token CHR ''@'' ''Fix bug'' \<and>
   parse_tags_and_priority ''Fix bug'' = ([], Some ''Fix bug'', [], 2)"
proof -
  have a: "parse_tags_and_priority ''Fix bug @urgent #backend'' =
      ([], Some ''Fix bug'', [''backend''], 4)"
    by code_simp
  have b: "\<not> has_token CHR ''#'' ''Fix bug''" by code_simp
  have c: "\<not> has_token CHR ''@'' ''Fix bug''" by code_simp
  from parse_cleaned_again [OF a b c] a b c show ?thesis by simp
qed

subsection \<open>The scanners find the first token\<close>

lemma takeWhile_word_name:
  assumes "list_all is_word name" "case rest of [] \<Rightarrow> True | x # xs \<Rightarrow> \<not> is_word x"
  shows "takeWhile is_word (name @ rest) = name" "dropWhile is_word (name @ rest) = rest"
proof -
  from assms(1) have n: "\<forall>c\<in>set name. is_word c" by (simp add: list_all_iff)
  from assms(2) have r: "takeWhile is_word rest = []" "dropWhile is_word rest = rest"
    by (cases rest; simp)+
  from n r show "takeWhile is_word (name @ rest) = name" by (simp add: takeWhile_append2)
  from n r show "dropWhile is_word (name @ rest) = rest" by (simp add: dropWhile_append2)
qed

lemma first_match_scan:
  assumes "\<not> is_word sg" and "first_match sg r pre name rest"
  shows "search_token sg r = Some name \<and>
         sub_token sg r = pre @ sub_token sg (dropWhile is_space rest)"
proof -
  from assms(2) have r: "r = pre @ sg # name @ rest" and ne: "name \<noteq> []"
    and w: "list_all is_word name"
    and g: "case rest of [] \<Rightarrow> True | x # xs \<Rightarrow> \<not> is_word x"
    and np: "\<not> has_token sg pre"
    by (simp_all add: first_match_def)
  note tw = takeWhile_word_name [OF w g]
  from np have "search_token sg (pre @ sg # name @ rest) = Some name \<and>
      sub_token sg (pre @ sg # name @ rest) = pre @ sub_token sg (dropWhile is_space rest)"
  proof (induction pre)
    case Nil
    with ne show ?case by (simp add: tw)
  next
    case (Cons c pre)
    from Cons.prems have np': "\<not> has_token sg pre"
      and hd: "\<not> (c = sg \<and> (case pre of [] \<Rightarrow> False | x # xs \<Rightarrow> is_word x))"
      by simp_all
    have "\<not> (c = sg \<and> takeWhile is_word (pre @ sg # name @ rest) \<noteq> [])"
      using hd assms(1) by (cases pre) auto
    with Cons.IH [OF np'] show ?case by auto
  qed
  with r show ?thesis by simp
qed

lemma dropWhile_stops: "case dropWhile P cs of [] \<Rightarrow> True | x # xs \<Rightarrow> \<not> P x"
  by (induction cs) auto

lemma has_token_first_match:
  assumes "\<not> is_word sg" and "has_token sg r"
  shows "\<exists>pre name rest. first_match sg r pre name rest"
  using assms(2)
proof (induction r)
  case Nil
  then show ?case by simp
next
  case (Cons c cs)
  show ?case
  proof (cases "c = sg \<and> (case cs of [] \<Rightarrow> False | x # xs \<Rightarrow> is_word x)")
    case True
    let ?name = "takeWhile is_word cs" and ?rest = "dropWhile is_word cs"
    from True have ne: "?name \<noteq> []" by (cases cs) auto
    have w: "list_all is_word ?name" by (auto simp: list_all_iff dest: set_takeWhileD)
    have g: "case ?rest of [] \<Rightarrow> True | x # xs \<Rightarrow> \<not> is_word x"
      by (rule dropWhile_stops)
    from True ne w g have "first_match sg (c # cs) [] ?name ?rest"
      by (simp add: first_match_def)
    then show ?thesis by blast
  next
    case False
    with Cons.prems have "has_token sg cs" by auto
    from Cons.IH [OF this] obtain pre name rest where fm: "first_match sg cs pre name rest"
      by blast
    have "\<not> has_token sg (c # pre)"
    proof (cases pre)
      case Nil
      with assms(1) show ?thesis by simp
    next
      case (Cons x xs)
      with fm have cs: "cs = x # xs @ sg # name @ rest" by (simp add: first_match_def)
      from fm have "\<not> has_token sg pre" by (simp add: first_match_def)
      with False cs Cons show ?thesis by auto
    qed
    with fm have "first_match sg (c # cs) (c # pre) name rest"
      by (simp add: first_match_def)
    then show ?thesis by blast
  qed
qed

lemma first_match_has_token:
  "first_match sg r pre name rest \<Longrightarrow> has_token sg r"
proof -
  assume fm: "first_match sg r pre name rest"
  then obtain a n where n: "name = a # n" "is_word a" by (cases name) (auto simp: first_match_def)
  have "has_token sg (pre @ sg # a # n @ rest)" using n(2) by (induction pre) auto
  with fm n show ?thesis by (simp add: first_match_def)
qed


text \<open>
  C3. The claim says that exactly the matched priority token is taken out of the
  description. The parser calls \<^verbatim>\<open>re.sub(r'@\w+\s*', '', desc)\<close>, which deletes every
  such token with the whitespace behind it: of \<^verbatim>\<open>a @high b @low\<close> the description
  \<^verbatim>\<open>a b\<close> is left, where taking out the matched token alone leaves \<^verbatim>\<open>a b @low\<close>.
\<close>

theorem priority_token_counterexample:
  "fst (snd (parse_tags_and_priority ''a @high b @low'')) = Some ''a b'' \<and>
   join '' '' (split_ws (spec_strip_matched_token CHR ''@'' ''a @high b @low'')) = ''a b @low''"
proof -
  have 1: "fst (snd (parse_tags_and_priority ''a @high b @low'')) = Some ''a b''"
    by code_simp
  have 2: "join '' '' (split_ws (spec_strip_matched_token CHR ''@'' ''a @high b @low'')) = ''a b @low''"
    by code_simp
  from 1 2 show ?thesis by simp
qed

text \<open>
  C3, as the code has it. Let \<open>r\<close> be what is left of the input after the tags are taken
  out and the ends are stripped. If \<open>r\<close> has no \<open>@\<close> directly followed by a word
  character, the priority is 2, nothing is printed about the priority and the description
  is \<open>r\<close> with its whitespace collapsed. If the first token of \<open>r\<close> is \<open>@name\<close>, between
  \<open>pre\<close> and \<open>rest\<close>: the priority is the level of the lower-cased name when that is
  one of \<^verbatim>\<open>low\<close>, \<^verbatim>\<open>normal\<close>, \<^verbatim>\<open>high\<close>, \<^verbatim>\<open>urgent\<close>, and otherwise it is 2 and the
  warning with the lower-cased name is printed; the description is made from \<open>pre\<close> and
  from \<open>rest\<close> without its leading whitespace and with all further tokens deleted in the
  same way. One of the two cases always applies. An empty description gives the error
  with the original input.
\<close>

theorem priority_token:
  assumes "r = strip (sub_token CHR ''#'' d)"
  shows "(\<not> has_token CHR ''@'' r \<longrightarrow>
            parse_tags_and_priority d =
              (let c = join '' '' (split_ws r)
               in if c = [] then ([Parser_msg (Empty_description d)], None, [], 2)
                  else ([], Some c, findall_token CHR ''#'' d, 2))) \<and>
         (\<forall>pre name rest. first_match CHR ''@'' r pre name rest \<longrightarrow>
            parse_tags_and_priority d =
              (let warn = (if map_of PRIORITIES (lower name) = None
                           then [Parser_msg (Unknown_priority (lower name))] else []);
                   prio = (case map_of PRIORITIES (lower name) of None \<Rightarrow> 2 | Some p \<Rightarrow> p);
                   c = join '' '' (split_ws (strip
                         (pre @ sub_token CHR ''@'' (dropWhile is_space rest))))
               in if c = [] then (warn @ [Parser_msg (Empty_description d)], None, [], prio)
                  else (warn, Some c, findall_token CHR ''#'' d, prio))) \<and>
         (has_token CHR ''@'' r \<longrightarrow> (\<exists>pre name rest. first_match CHR ''@'' r pre name rest))"
proof (intro conjI impI allI)
  assume "\<not> has_token CHR ''@'' r"
  then have "search_token CHR ''@'' (strip (sub_token CHR ''#'' d)) = None"
    unfolding assms by (simp add: no_token_scan)
  then show "parse_tags_and_priority d =
      (let c = join '' '' (split_ws r)
       in if c = [] then ([Parser_msg (Empty_description d)], None, [], 2)
          else ([], Some c, findall_token CHR ''#'' d, 2))"
    by (simp add: parse_tags_and_priority_def assms Let_def)
next
  fix pre name rest
  assume "first_match CHR ''@'' r pre name rest"
  from first_match_scan [OF sigils_not_word(2) this]
  have s: "search_token CHR ''@'' (strip (sub_token CHR ''#'' d)) = Some name"
    and u: "sub_token CHR ''@'' (strip (sub_token CHR ''#'' d)) =
            pre @ sub_token CHR ''@'' (dropWhile is_space rest)"
    unfolding assms by simp_all
  show "parse_tags_and_priority d =
      (let warn = (if map_of PRIORITIES (lower name) = None
                   then [Parser_msg (Unknown_priority (lower name))] else []);
           prio = (case map_of PRIORITIES (lower name) of None \<Rightarrow> 2 | Some p \<Rightarrow> p);
           c = join '' '' (split_ws (strip (pre @ sub_token CHR ''@'' (dropWhile is_space rest))))
       in if c = [] then (warn @ [Parser_msg (Empty_description d)], None, [], prio)
          else (warn, Some c, findall_token CHR ''#'' d, prio))"
    by (cases "map_of PRIORITIES (lower name)")
       (simp_all add: parse_tags_and_priority_def s u Let_def)
next
  assume "has_token CHR ''@'' r"
  then show "\<exists>pre name rest. first_match CHR ''@'' r pre name rest"
    by (rule has_token_first_match [OF sigils_not_word(2)])
qed

theorem priority_token_witness:
  "first_match CHR ''@'' (strip (sub_token CHR ''#'' ''Fix @Urgent now @low #x''))
     ''Fix '' ''Urgent'' '' now @low'' \<and>
   parse_tags_and_priority ''Fix @Urgent now @low #x'' = ([], Some ''Fix now'', [''x''], 4)"
proof -
  have fm: "first_match CHR ''@'' (strip (sub_token CHR ''#'' ''Fix @Urgent now @low #x''))
     ''Fix '' ''Urgent'' '' now @low''"
    by code_simp
  have v: "(let warn = (if map_of PRIORITIES (lower ''Urgent'') = None
                   then [Parser_msg (Unknown_priority (lower ''Urgent''))] else []);
           prio = (case map_of PRIORITIES (lower ''Urgent'') of None \<Rightarrow> 2 | Some p \<Rightarrow> p);
           c = join '' '' (split_ws (strip (''Fix '' @ sub_token CHR ''@'' (dropWhile is_space '' now @low''))))
       in if c = [] then (warn @ [Parser_msg (Empty_description ''Fix @Urgent now @low #x'')], None, [], prio)
          else (warn, Some c, findall_token CHR ''#'' ''Fix @Urgent now @low #x'', prio))
       = ([], Some ''Fix now'', [''x''], 4)"
    by code_simp
  from priority_token [OF refl, of "''Fix @Urgent now @low #x''", THEN conjunct2, THEN conjunct1,
      rule_format, OF fm] v fm
  show ?thesis by (simp only: simp_thms)
qed


text \<open>
  C1. The claim says that after every operation no tag of a stored task contains the
  character \<open>#\<close>. Only the tags found in the text are made of word characters; the tags
  given with \<^verbatim>\<open>--tag\<close> are stored as they are typed: after
  \<^verbatim>\<open>add Call Bob --tag '#work'\<close> the store holds a task with the tag \<^verbatim>\<open>#work\<close>.
\<close>

theorem invariant_preserved_counterexample:
  "store_ok (example_world []) \<and>
   \<not> store_ok (snd (main (Add [''Call'', ''Bob''] None (Some [''#work''])) (example_world [])))"
proof -
  have 1: "store_ok (example_world [])"
    by (simp add: store_ok_def stored_def example_world_def)
  have 2: "stored (snd (main (Add [''Call'', ''Bob''] None (Some [''#work''])) (example_world []))) =
      [\<lparr>desc = ''Call Bob'', is_done = False, priority = Some 2, tags = Some [''#work''],
        created = Some ''2026-11-04 10:00:00''\<rparr>]"
    by code_simp
  have 3: "\<not> task_ok \<lparr>desc = ''Call Bob'', is_done = False, priority = Some 2,
      tags = Some [''#work''], created = Some ''2026-11-04 10:00:00''\<rparr>"
    by (simp add: task_ok_def get_tags_def)
  from 1 2 3 show ?thesis by (simp add: store_ok_def)
qed


subsection \<open>Each operation keeps the invariant\<close>

lemma store_ok_disk: "disk w' = disk w \<Longrightarrow> store_ok w' = store_ok w"
  by (simp add: store_ok_def stored_def)

lemma store_ok_print [simp]: "store_ok (print m w) = store_ok w"
  by (rule store_ok_disk) simp

lemma store_ok_printed [simp]: "store_ok (w\<lparr>printed := x\<rparr>) = store_ok w"
  by (rule store_ok_disk) simp

lemma store_ok_save: "list_all task_ok ts \<Longrightarrow> store_ok w \<Longrightarrow> store_ok (save_tasks ts w)"
  by (simp add: save_tasks_def Let_def store_ok_def stored_def)

lemma task_ok_migrate: "task_ok t \<Longrightarrow> task_ok (migrate n t)"
  by (auto simp: task_ok_def migrate_def Let_def get_priority_def get_tags_def)

lemma load_tasks_ok:
  assumes "store_ok w"
  shows "list_all task_ok (fst (load_tasks w))" and "store_ok (snd (load_tasks w))"
proof -
  from assms show "list_all task_ok (fst (load_tasks w))"
    by (simp add: fst_load_tasks store_ok_def list_all_iff task_ok_migrate)
  have "store_ok (snd (load_tasks w)) = store_ok w"
    by (rule store_ok_disk) simp
  with assms show "store_ok (snd (load_tasks w))" by simp
qed

lemma task_ok_done [simp]: "task_ok (t\<lparr>is_done := b\<rparr>) = task_ok t"
  by (simp add: task_ok_def get_priority_def get_tags_def)

lemma PRIORITIES_range: "map_of PRIORITIES n = Some p \<Longrightarrow> p \<in> {1, 2, 3, 4}"
  by (auto simp: PRIORITIES_def split: if_splits)

lemma findall_token_words:
  "tg \<in> set (findall_token sg s) \<Longrightarrow> \<forall>c\<in>set tg. is_word c"
proof (induction sg s rule: findall_token.induct)
  case (1 sg)
  then show ?case by simp
next
  case (2 sg c cs)
  show ?case
  proof (cases "c = sg \<and> takeWhile is_word cs \<noteq> []")
    case True
    with 2(3) have "tg = takeWhile is_word cs \<or> tg \<in> set (findall_token sg (dropWhile is_word cs))"
      by simp
    then show ?thesis
    proof
      assume "tg = takeWhile is_word cs"
      then show ?thesis by (auto dest: set_takeWhileD)
    next
      assume "tg \<in> set (findall_token sg (dropWhile is_word cs))"
      with 2(1) [OF True] show ?thesis .
    qed
  next
    case False
    with 2(3) have "tg \<in> set (findall_token sg cs)" by auto
    with 2(2) [OF False] show ?thesis .
  qed
qed

lemma parsed_tags_ok: "list_all (\<lambda>tg. CHR ''#'' \<notin> set tg) (findall_token sg s)"
proof -
  have "CHR ''#'' \<notin> set tg" if "tg \<in> set (findall_token sg s)" for tg
    using findall_token_words [OF that] sigils_not_word(1) by blast
  then show ?thesis by (simp add: list_all_iff)
qed

lemma cleaned_not_blank:
  assumes "d = join '' '' (split_ws x)" "d \<noteq> []"
  shows "\<not> list_all is_space d"
proof -
  from assms have ne: "split_ws x \<noteq> []" by auto
  have w: "\<And>w. w \<in> set (split_ws x) \<Longrightarrow> w \<noteq> [] \<and> (\<forall>c\<in>set w. \<not> is_space c)"
    by (rule split_ws_words)
  then have nw: "\<forall>w\<in>set (split_ws x). w \<noteq> []" by blast
  from ne have h: "hd (split_ws x) \<in> set (split_ws x)" by simp
  from w [OF h] have "\<not> is_space (hd (hd (split_ws x)))" by simp
  with join_ends [OF ne nw, of "'' ''"] assms have "\<not> is_space (hd d)" "d \<noteq> []" by simp_all
  then show ?thesis by (cases d) simp_all
qed

lemma parse_result_ok:
  assumes "parse_tags_and_priority s = (out, Some d, tgs, p)"
  shows "d \<noteq> [] \<and> \<not> list_all is_space d \<and> p \<in> {1, 2, 3, 4} \<and>
         list_all (\<lambda>tg. CHR ''#'' \<notin> set tg) tgs"
proof -
  from parse_cleaned_shape [OF assms] obtain x where d: "d = join '' '' (split_ws x)" "d \<noteq> []"
    by blast
  have p: "p \<in> {1, 2, 3, 4}"
  proof (cases "search_token CHR ''@'' (strip (sub_token CHR ''#'' s))")
    case None
    with assms show ?thesis
      by (auto simp: parse_tags_and_priority_def Let_def split: if_splits)
  next
    case (Some g)
    show ?thesis
    proof (cases "map_of PRIORITIES (lower g)")
      case None
      with Some assms show ?thesis
        by (auto simp: parse_tags_and_priority_def Let_def split: if_splits)
    next
      case (Some q)
      with \<open>search_token CHR ''@'' (strip (sub_token CHR ''#'' s)) = Some g\<close> assms
      have "p = q" by (auto simp: parse_tags_and_priority_def Let_def split: if_splits)
      with PRIORITIES_range [OF Some] show ?thesis by simp
    qed
  qed
  have t: "tgs = findall_token CHR ''#'' s"
  proof (cases "search_token CHR ''@'' (strip (sub_token CHR ''#'' s))")
    case None
    with assms show ?thesis
      by (auto simp: parse_tags_and_priority_def Let_def split: if_splits)
  next
    case (Some g)
    with assms show ?thesis
      by (cases "map_of PRIORITIES (lower g)")
         (auto simp: parse_tags_and_priority_def Let_def split: if_splits)
  qed
  from d p t cleaned_not_blank [OF d] parsed_tags_ok show ?thesis by simp
qed


lemma new_task_ok:
  assumes "d \<noteq> []" "\<not> list_all is_space d" "p \<in> {1, 2, 3, 4}"
    "list_all (\<lambda>tg. CHR ''#'' \<notin> set tg) tg"
  shows "task_ok \<lparr>desc = d, is_done = b, priority = Some p, tags = Some tg, created = c\<rparr>"
  using assms by (simp add: task_ok_def get_priority_def get_tags_def)

lemma add_task_ok:
  assumes "store_ok w" and "\<And>tg. tags0 = Some tg \<Longrightarrow> list_all (\<lambda>t. CHR ''#'' \<notin> set t) tg"
  shows "store_ok (snd (add_task d p tags0 w))"
proof -
  obtain out pd itags ip where parsed: "parse_tags_and_priority d = (out, pd, itags, ip)"
    by (cases "parse_tags_and_priority d") auto
  show ?thesis
  proof (cases pd)
    case None
    with assms(1) show ?thesis by (simp add: add_task_def parsed)
  next
    case (Some cleaned)
    from parse_result_ok [OF parsed [unfolded Some]]
    have c: "cleaned \<noteq> []" "\<not> list_all is_space cleaned" and ip: "ip \<in> {1, 2, 3, 4}"
      and it: "list_all (\<lambda>tg. CHR ''#'' \<notin> set tg) itags"
      by simp_all
    let ?w1 = "w\<lparr>printed := printed w @ out\<rparr>"
    obtain tasks w2 where l: "load_tasks ?w1 = (tasks, w2)" by (cases "load_tasks ?w1") auto
    have s1: "store_ok ?w1" using assms(1) by simp
    from load_tasks_ok [OF s1] l have t: "list_all task_ok tasks" and s2: "store_ok w2"
      by simp_all
    define fp where "fp = (case (if truthy p then map_of PRIORITIES (lower (the p)) else None) of
                             Some q \<Rightarrow> q | None \<Rightarrow> ip)"
    define ft where "ft = (if truthy tags0 then the tags0 else itags)"
    have fp: "fp \<in> {1, 2, 3, 4}"
      unfolding fp_def using ip by (auto split: option.splits dest: PRIORITIES_range)
    have ft: "list_all (\<lambda>tg. CHR ''#'' \<notin> set tg) ft"
      unfolding ft_def using it assms(2) by (cases tags0) (auto simp: truthy_def)
    have n: "list_all task_ok (tasks @ [\<lparr>desc = cleaned, is_done = False, priority = Some fp,
                tags = Some ft, created = Some (now_stamp w2)\<rparr>])"
      using t new_task_ok [OF c fp ft] by simp
    have s3: "store_ok (save_tasks (tasks @ [\<lparr>desc = cleaned, is_done = False, priority = Some fp,
                tags = Some ft, created = Some (now_stamp w2)\<rparr>]) w2)"
      using n s2 by (rule store_ok_save)
    have eq: "add_task d p tags0 w =
        (case map_of PRIORITY_NAMES fp of
           None \<Rightarrow> (Inl KeyError, save_tasks (tasks @ [\<lparr>desc = cleaned, is_done = False,
                     priority = Some fp, tags = Some ft, created = Some (now_stamp w2)\<rparr>]) w2)
         | Some nm \<Rightarrow> (Inr True, print (Task_msg (Added nm cleaned ft))
                     (save_tasks (tasks @ [\<lparr>desc = cleaned, is_done = False,
                     priority = Some fp, tags = Some ft, created = Some (now_stamp w2)\<rparr>]) w2)))"
      unfolding fp_def ft_def
      by (simp add: add_task_def parsed Some l Let_def split del: if_split)
    show ?thesis
      using s3 by (simp add: eq split: option.splits)
  qed
qed

lemma mark_done_ok: "store_ok w \<Longrightarrow> store_ok (snd (mark_done i w))"
proof -
  assume a: "store_ok w"
  obtain tasks w2 where l: "load_tasks w = (tasks, w2)" by (cases "load_tasks w") auto
  from load_tasks_ok [OF a] l have t: "list_all task_ok tasks" and s2: "store_ok w2" by simp_all
  have "store_ok (save_tasks (tasks[nat (i - 1) := (tasks ! nat (i - 1))\<lparr>is_done := True\<rparr>]) w2)"
    if "nat (i - 1) < length tasks"
    using t s2 that by (intro store_ok_save) (auto simp: list_all_iff dest!: set_update_subset_insert [THEN subsetD])
  then show ?thesis
    using s2 by (auto simp: mark_done_def l Let_def dest: valid_index_nat)
qed

lemma mark_undone_ok: "store_ok w \<Longrightarrow> store_ok (snd (mark_undone i w))"
proof -
  assume a: "store_ok w"
  obtain tasks w2 where l: "load_tasks w = (tasks, w2)" by (cases "load_tasks w") auto
  from load_tasks_ok [OF a] l have t: "list_all task_ok tasks" and s2: "store_ok w2" by simp_all
  have "store_ok (save_tasks (tasks[nat (i - 1) := (tasks ! nat (i - 1))\<lparr>is_done := False\<rparr>]) w2)"
    if "nat (i - 1) < length tasks"
    using t s2 that by (intro store_ok_save) (auto simp: list_all_iff dest!: set_update_subset_insert [THEN subsetD])
  then show ?thesis
    using s2 by (auto simp: mark_undone_def l Let_def dest: valid_index_nat)
qed

lemma delete_task_ok: "store_ok w \<Longrightarrow> store_ok (snd (delete_task i w))"
proof -
  assume a: "store_ok w"
  obtain tasks w2 where l: "load_tasks w = (tasks, w2)" by (cases "load_tasks w") auto
  from load_tasks_ok [OF a] l have t: "list_all task_ok tasks" and s2: "store_ok w2" by simp_all
  have "store_ok (save_tasks (take k tasks @ drop (Suc k) tasks) w2)" for k
    using t s2 by (intro store_ok_save) (auto simp: list_all_iff dest: in_set_takeD in_set_dropD)
  then show ?thesis
    using s2 by (auto simp: delete_task_def l Let_def)
qed

lemma clear_done_ok: "store_ok w \<Longrightarrow> store_ok (snd (clear_done w))"
proof -
  assume a: "store_ok w"
  obtain tasks w2 where l: "load_tasks w = (tasks, w2)" by (cases "load_tasks w") auto
  from load_tasks_ok [OF a] l have t: "list_all task_ok tasks" and s2: "store_ok w2" by simp_all
  have s3: "store_ok (save_tasks (filter (\<lambda>t. \<not> is_done t) tasks) w2)"
    using t s2 by (intro store_ok_save) (auto simp: list_all_iff)
  have f: "store_ok (foldl (\<lambda>w t. print (Clear_msg (Removed_item (desc t) (get_tags t))) w) w' xs)
      = store_ok w'" for w' xs
    by (induction xs arbitrary: w') simp_all
  show ?thesis
    using s2 s3 by (simp add: clear_done_def l Let_def f)
qed

lemma list_update_ok:
  "list_all task_ok ts \<Longrightarrow> task_ok t \<Longrightarrow> list_all task_ok (ts[k := t])"
proof -
  assume a: "list_all task_ok ts" "task_ok t"
  have "set (ts[k := t]) \<subseteq> insert t (set ts)" by (rule set_update_subset_insert)
  with a show ?thesis unfolding list_all_iff by blast
qed

lemma task_ok_nth: "list_all task_ok ts \<Longrightarrow> k < length ts \<Longrightarrow> task_ok (ts ! k)"
  by (simp add: list_all_iff)

lemma task_ok_desc:
  "task_ok t \<Longrightarrow> d \<noteq> [] \<Longrightarrow> \<not> list_all is_space d \<Longrightarrow> task_ok (t\<lparr>desc := d\<rparr>)"
  by (simp add: task_ok_def get_priority_def get_tags_def)

lemma task_ok_priority:
  "task_ok t \<Longrightarrow> q \<in> {1, 2, 3, 4} \<Longrightarrow> task_ok (t\<lparr>priority := Some q\<rparr>)"
  by (simp add: task_ok_def get_priority_def get_tags_def)

lemma task_ok_tags:
  "task_ok t \<Longrightarrow> list_all (\<lambda>x. CHR ''#'' \<notin> set x) tg \<Longrightarrow> task_ok (t\<lparr>tags := Some tg\<rparr>)"
  by (simp add: task_ok_def get_priority_def get_tags_def)

lemma apply_parsed_cases:
  assumes "apply_parsed d itags ip p tags0 t = Inr (t', ch)"
  shows "t' = t\<lparr>desc := d\<rparr> \<or> t' = t\<lparr>desc := d, priority := Some ip\<rparr> \<or>
         t' = t\<lparr>desc := d, tags := Some itags\<rparr> \<or>
         t' = t\<lparr>desc := d, priority := Some ip, tags := Some itags\<rparr>"
proof (cases "\<not> truthy p \<and> ip \<noteq> get_priority (t\<lparr>desc := d\<rparr>)")
  case c1: True
  show ?thesis
  proof (cases "map_of PRIORITY_NAMES ip")
    case None
    with c1 assms show ?thesis by (simp add: apply_parsed_def Let_def)
  next
    case (Some nm)
    with c1 assms show ?thesis
      by (cases "tags0 = None \<and> itags \<noteq> get_tags (t\<lparr>desc := d, priority := Some ip\<rparr>)")
         (auto simp: apply_parsed_def Let_def)
  qed
next
  case c1: False
  with assms show ?thesis
    by (cases "tags0 = None \<and> itags \<noteq> get_tags (t\<lparr>desc := d\<rparr>)")
       (auto simp: apply_parsed_def Let_def)
qed


lemma apply_parsed_ok:
  assumes "task_ok t" and "d \<noteq> []" "\<not> list_all is_space d" and "ip \<in> {1, 2, 3, 4}"
    and "list_all (\<lambda>tg. CHR ''#'' \<notin> set tg) itags"
    and "apply_parsed d itags ip p tags0 t = Inr (t', ch)"
  shows "task_ok t'"
proof -
  have 1: "task_ok (t\<lparr>desc := d\<rparr>)" using assms(1,2,3) by (rule task_ok_desc)
  have 2: "task_ok (t\<lparr>desc := d, priority := Some ip\<rparr>)"
    using 1 assms(4) by (rule task_ok_priority)
  have 3: "task_ok (t\<lparr>desc := d, tags := Some itags\<rparr>)"
    using 1 assms(5) by (rule task_ok_tags)
  have 4: "task_ok (t\<lparr>desc := d, priority := Some ip, tags := Some itags\<rparr>)"
    using 2 assms(5) by (rule task_ok_tags)
  from apply_parsed_cases [OF assms(6)] 1 2 3 4 show ?thesis by blast
qed

lemma apply_explicit_ok:
  assumes "task_ok t" and "\<And>tg. tags0 = Some tg \<Longrightarrow> list_all (\<lambda>x. CHR ''#'' \<notin> set x) tg"
  shows "task_ok (fst (apply_explicit p tags0 (t, ch)))"
proof -
  define tc1 where "tc1 =
    (if truthy p
     then (case map_of PRIORITIES (lower (the p)) of
             None \<Rightarrow> (t, ch)
           | Some priority_level \<Rightarrow>
               if priority_level \<noteq> 0 \<and> priority_level \<noteq> get_priority t
               then (t\<lparr>priority := Some priority_level\<rparr>,
                     ch @ [Priority_change (priority_name_or_normal t) (the p)])
               else (t, ch))
     else (t, ch))"
  have 1: "task_ok (fst tc1)"
  proof (cases "map_of PRIORITIES (lower (the p))")
    case None
    with assms(1) show ?thesis by (simp add: tc1_def)
  next
    case (Some q)
    from task_ok_priority [OF assms(1) PRIORITIES_range [OF Some]] assms(1) Some
    show ?thesis by (simp add: tc1_def)
  qed
  have eq: "apply_explicit p tg0 (t, ch) =
      (case tg0 of
         None \<Rightarrow> tc1
       | Some new_tags \<Rightarrow>
           if new_tags \<noteq> get_tags (fst tc1)
           then ((fst tc1)\<lparr>tags := Some new_tags\<rparr>,
                 snd tc1 @ [Tags_change (get_tags (fst tc1)) new_tags])
           else tc1)"
    for tg0
    unfolding tc1_def
    by (simp add: apply_explicit_def Let_def split_beta split del: if_split cong: if_cong option.case_cong)
  show ?thesis
  proof (cases tags0)
    case None
    show ?thesis using 1 by (simp add: eq None)
  next
    case (Some tg)
    show ?thesis
      using task_ok_tags [OF 1 assms(2) [OF Some]] 1 by (simp add: eq Some)
  qed
qed

lemma finish_update_ok:
  assumes "list_all task_ok tasks" "task_ok (fst tc)" "store_ok w"
  shows "store_ok (snd (finish_update i tasks tc w))"
proof -
  obtain t ch where tc: "tc = (t, ch)" by (cases tc) auto
  with assms(2) have t: "task_ok t" by simp
  have "store_ok (save_tasks (tasks[nat (i - 1) := t]) w)"
    using list_update_ok [OF assms(1) t] assms(3) by (rule store_ok_save)
  with assms(3) show ?thesis by (simp add: finish_update_def tc Let_def)
qed


lemma update_task_ok:
  assumes "store_ok w" and "\<And>tg. tags0 = Some tg \<Longrightarrow> list_all (\<lambda>x. CHR ''#'' \<notin> set x) tg"
  shows "store_ok (snd (update_task i d p tags0 w))"
proof -
  obtain tasks w2 where l: "load_tasks w = (tasks, w2)" by (cases "load_tasks w") auto
  from load_tasks_ok [OF assms(1)] l have ts: "list_all task_ok tasks" and s2: "store_ok w2"
    by simp_all
  show ?thesis
  proof (cases "valid_index i tasks")
    case False
    with s2 show ?thesis by (simp add: update_task_def l)
  next
    case True
    then have t: "task_ok (tasks ! nat (i - 1))"
      using ts by (intro task_ok_nth) (auto dest: valid_index_nat)
    show ?thesis
    proof (cases "truthy d")
      case False
      have "store_ok (snd (finish_update i tasks (apply_explicit p tags0 (tasks ! nat (i - 1), [])) w2))"
        using ts apply_explicit_ok [OF t assms(2)] s2 by (intro finish_update_ok) simp_all
      with True False show ?thesis by (simp add: update_task_def l Let_def)
    next
      case td: True
      obtain out pd itags ip where parsed: "parse_tags_and_priority (the d) = (out, pd, itags, ip)"
        by (cases "parse_tags_and_priority (the d)") auto
      have s3: "store_ok (w2\<lparr>printed := printed w2 @ out\<rparr>)" using s2 by simp
      show ?thesis
      proof (cases pd)
        case None
        with True td s3 show ?thesis by (simp add: update_task_def l Let_def parsed)
      next
        case (Some nd)
        from parse_result_ok [OF parsed [unfolded Some]]
        have c: "nd \<noteq> []" "\<not> list_all is_space nd" and ip: "ip \<in> {1, 2, 3, 4}"
          and it: "list_all (\<lambda>tg. CHR ''#'' \<notin> set tg) itags"
          by simp_all
        show ?thesis
        proof (cases "apply_parsed nd itags ip p tags0 (tasks ! nat (i - 1))")
          case (Inl e)
          with True td s3 Some show ?thesis by (simp add: update_task_def l Let_def parsed)
        next
          case (Inr tc)
          obtain t' ch where tc: "tc = (t', ch)" by (cases tc) auto
          from apply_parsed_ok [OF t c ip it Inr [unfolded tc]] have t': "task_ok t'" .
          have "store_ok (snd (finish_update i tasks (apply_explicit p tags0 (t', ch))
                  (w2\<lparr>printed := printed w2 @ out\<rparr>)))"
            using ts apply_explicit_ok [OF t' assms(2)] s3 by (intro finish_update_ok) simp_all
          with True td Some Inr tc show ?thesis by (simp add: update_task_def l Let_def parsed)
        qed
      qed
    qed
  qed
qed



lemma show_welcome_interface_frame: "disk (snd (show_welcome_interface w)) = disk w"
proof -
  obtain tasks w2 where l: "load_tasks (print (Screen_msg Welcome_header) w) = (tasks, w2)"
    by (cases "load_tasks (print (Screen_msg Welcome_header) w)") auto
  from load_tasks_frame(1) [of "print (Screen_msg Welcome_header) w"] l
  have d2: "disk w2 = disk w" by simp
  have "disk (snd (list_tasks None None ''priority'' False False (print (Screen_msg Your_tasks) w2)))
      = disk w"
    using list_tasks_frame [of None None "''priority''" False False "print (Screen_msg Your_tasks) w2"] d2
    by simp
  with d2 show ?thesis
    by (auto simp: show_welcome_interface_def l Let_def split: prod.splits sum.splits)
qed

lemma run_ok:
  assumes "store_ok w" and "list_all (\<lambda>tg. CHR ''#'' \<notin> set tg) (explicit_tags c)"
  shows "store_ok (snd (run c w))"
proof (cases c)
  case No_arguments
  have "store_ok (snd (show_welcome_interface w)) = store_ok w"
    by (rule store_ok_disk) (rule show_welcome_interface_frame)
  with assms(1) No_arguments show ?thesis by simp
next
  case (Add words p tg)
  have "store_ok (snd (add_task (join '' '' words) p tg w))"
    using assms Add by (intro add_task_ok) auto
  with Add show ?thesis by (simp add: forget_def)
next
  case (Ls tg p sb sd sc)
  have "store_ok (snd (list_tasks tg p sb sd sc w)) = store_ok w"
    by (rule store_ok_disk) (simp add: list_tasks_frame)
  with assms(1) Ls show ?thesis by simp
next
  case (Update i d p tg)
  have "store_ok (snd (update_task i d p tg w))"
    using assms Update by (intro update_task_ok) auto
  with Update show ?thesis by (simp add: forget_def)
next
  case (Done i)
  with mark_done_ok [OF assms(1)] show ?thesis by (simp add: forget_def)
next
  case (Undone i)
  with mark_undone_ok [OF assms(1)] show ?thesis by (simp add: forget_def)
next
  case (Rm i)
  with delete_task_ok [OF assms(1)] show ?thesis by (simp add: forget_def)
next
  case Clear
  with clear_done_ok [OF assms(1)] show ?thesis by simp
next
  case Stats
  have "store_ok (snd (show_stats w)) = store_ok w"
    by (rule store_ok_disk) (simp add: show_stats_frame)
  with assms(1) Stats show ?thesis by simp
next
  case Help
  with assms(1) show ?thesis by (simp add: show_help_def)
qed

text \<open>
  C1, as the code has it. If every stored task has a description that is not empty and
  not only whitespace, a priority among 1, 2, 3, 4 and no \<open>#\<close> in its tags, and the tags
  given explicitly to the command (if any) contain no \<open>#\<close>, then the same holds for the
  stored tasks after the command, whatever the command is and however it ends; and it
  holds for the list that \<^verbatim>\<open>load_tasks\<close> returns, with the missing keys filled in.
\<close>

theorem invariant_preserved:
  assumes "store_ok w" and "list_all (\<lambda>tg. CHR ''#'' \<notin> set tg) (explicit_tags c)"
  shows "store_ok (snd (main c w)) \<and> list_all task_ok (fst (load_tasks w))"
proof -
  from run_ok [OF assms] have "store_ok (snd (main c w))"
    by (auto simp: main_def split: prod.splits sum.splits)
  with load_tasks_ok(1) [OF assms(1)] show ?thesis by simp
qed


theorem invariant_preserved_witness:
  "store_ok (example_world []) \<and>
   list_all (\<lambda>tg. CHR ''#'' \<notin> set tg) (explicit_tags (Add [''Call'', ''Bob''] None (Some [''work'']))) \<and>
   store_ok (snd (main (Add [''Call'', ''Bob''] None (Some [''work''])) (example_world [])))"
proof -
  have 1: "store_ok (example_world [])"
    by (simp add: store_ok_def stored_def example_world_def)
  have 2: "list_all (\<lambda>tg. CHR ''#'' \<notin> set tg)
      (explicit_tags (Add [''Call'', ''Bob''] None (Some [''work''])))"
    by simp
  from invariant_preserved [OF 1 2] 1 2 show ?thesis by simp
qed

end
